theory Spec2Isabelle
  imports Main
begin

section \<open>Strings of the event model\<close>

text \<open>
  A string is a list of code units. The model covers the code units 0 to 255 (the type
  \<open>char\<close>), read as Unicode code points U+0000 to U+00FF: on this range
  \<^verbatim>\<open>toLowerCase\<close>, \<^verbatim>\<open>trim\<close> and the regular-expression classes
  \<^verbatim>\<open>\s\<close>, \<^verbatim>\<open>\w\<close> and \<^verbatim>\<open>\d\<close> are the functions below.
\<close>

definition code :: "char \<Rightarrow> nat" where
  "code c = of_char c"

text \<open>The class \<^verbatim>\<open>\s\<close>, also what \<^verbatim>\<open>trim\<close> removes: TAB, LF, VT, FF, CR, SPACE, NBSP.\<close>

definition isSpace :: "char \<Rightarrow> bool" where
  "isSpace c = ((9 \<le> code c \<and> code c \<le> 13) \<or> code c = 32 \<or> code c = 160)"

text \<open>The class \<^verbatim>\<open>\d\<close>: 0-9.\<close>

definition isDigit :: "char \<Rightarrow> bool" where
  "isDigit c = (48 \<le> code c \<and> code c \<le> 57)"

text \<open>The class \<^verbatim>\<open>\w\<close>: A-Z, a-z, 0-9 and the underscore.\<close>

definition isWord :: "char \<Rightarrow> bool" where
  "isWord c = (isDigit c \<or> (65 \<le> code c \<and> code c \<le> 90) \<or> code c = 95
               \<or> (97 \<le> code c \<and> code c \<le> 122))"

definition isHyphen :: "char \<Rightarrow> bool" where
  "isHyphen c = (c = CHR ''-'')"

text \<open>
  \<^verbatim>\<open>toLowerCase\<close> on one code unit: A-Z and the capital letters U+00C0 to U+00DE
  (U+00D7, the multiplication sign, is no letter) move up by 32.
\<close>

definition lowerChar :: "char \<Rightarrow> char" where
  "lowerChar c =
     (if (65 \<le> code c \<and> code c \<le> 90) \<or> (192 \<le> code c \<and> code c \<le> 222 \<and> code c \<noteq> 215)
      then char_of (code c + 32) else c)"

definition toLowerCase :: "string \<Rightarrow> string" where
  "toLowerCase s = map lowerChar s"

text \<open>Removal of the longest prefix and the longest suffix whose characters satisfy \<open>P\<close>.\<close>

definition stripBoth :: "(char \<Rightarrow> bool) \<Rightarrow> string \<Rightarrow> string" where
  "stripBoth P s = rev (dropWhile P (rev (dropWhile P s)))"

definition trim :: "string \<Rightarrow> string" where
  "trim s = stripBoth isSpace s"

text \<open>
  \<^verbatim>\<open>s.replace(/P+/g, "-")\<close>: scanning from the left, every maximal run of characters of
  the class \<open>P\<close> becomes one hyphen.
\<close>

function collapseRuns :: "(char \<Rightarrow> bool) \<Rightarrow> string \<Rightarrow> string" where
  "collapseRuns P [] = []"
| "collapseRuns P (c # cs) =
     (if P c then CHR ''-'' # collapseRuns P (dropWhile P cs) else c # collapseRuns P cs)"
  by pat_completeness auto
termination
  by (relation "measure (\<lambda>(P, s). length s)") (auto simp: length_dropWhile_le less_Suc_eq_le)

section \<open>Slug generation\<close>

text \<open>
  \<^verbatim>\<open>
  const generateSlug = (title: string): string => {
    return title
      .toLowerCase()
      .trim()
      .replace(/[^\w\s-]/g, "") // Remove special characters
      .replace(/\s+/g, "-") // Replace spaces with hyphens
      .replace(/-+/g, "-") // Replace multiple hyphens with single hyphen
      .replace(/^-+|-+$/g, ""); // Remove leading/trailing hyphens
  };
  \<close>
\<close>

definition keptBySlug :: "char \<Rightarrow> bool" where
  "keptBySlug c = (isWord c \<or> isSpace c \<or> isHyphen c)"

definition generateSlug :: "string \<Rightarrow> string" where
  "generateSlug title =
     stripBoth isHyphen
       (collapseRuns isHyphen
         (collapseRuns isSpace
           (filter keptBySlug
             (trim (toLowerCase title)))))"

text \<open>The characters a-z, 0-9, underscore and hyphen.\<close>

definition slugChar :: "char \<Rightarrow> bool" where
  "slugChar c = ((97 \<le> code c \<and> code c \<le> 122) \<or> isDigit c \<or> code c = 95 \<or> isHyphen c)"

text \<open>The characters a-z, 0-9 and hyphen: the class \<^verbatim>\<open>[a-z0-9-]\<close>.\<close>

definition strictSlugChar :: "char \<Rightarrow> bool" where
  "strictSlugChar c = ((97 \<le> code c \<and> code c \<le> 122) \<or> isDigit c \<or> isHyphen c)"

fun noDoubleHyphen :: "string \<Rightarrow> bool" where
  "noDoubleHyphen [] = True"
| "noDoubleHyphen [c] = True"
| "noDoubleHyphen (c # d # cs) = (\<not> (isHyphen c \<and> isHyphen d) \<and> noDoubleHyphen (d # cs))"

text \<open>A string in slug form: only slug characters, no hyphen at either end, no two hyphens in a row.\<close>

definition slugForm :: "string \<Rightarrow> bool" where
  "slugForm s = (list_all slugChar s \<and> (s = [] \<or> (\<not> isHyphen (hd s) \<and> \<not> isHyphen (last s)))
                 \<and> noDoubleHyphen s)"

section \<open>Regular expressions\<close>

text \<open>
  The regular expressions of the source use character classes, concatenation, alternation
  and repetition only, and are tested with both anchors, so \<^verbatim>\<open>/^r$/.test(s)\<close> decides
  whether the whole of \<open>s\<close> belongs to the language of \<open>r\<close>. The test is computed by
  derivatives.
\<close>

datatype rx = Fail | Eps | Cls "char \<Rightarrow> bool" | Seq rx rx | Alt rx rx | Star rx

fun nullable :: "rx \<Rightarrow> bool" where
  "nullable Fail = False"
| "nullable Eps = True"
| "nullable (Cls P) = False"
| "nullable (Seq r s) = (nullable r \<and> nullable s)"
| "nullable (Alt r s) = (nullable r \<or> nullable s)"
| "nullable (Star r) = True"

fun deriv :: "char \<Rightarrow> rx \<Rightarrow> rx" where
  "deriv c Fail = Fail"
| "deriv c Eps = Fail"
| "deriv c (Cls P) = (if P c then Eps else Fail)"
| "deriv c (Seq r s) =
     (if nullable r then Alt (Seq (deriv c r) s) (deriv c s) else Seq (deriv c r) s)"
| "deriv c (Alt r s) = Alt (deriv c r) (deriv c s)"
| "deriv c (Star r) = Seq (deriv c r) (Star r)"

fun derivs :: "string \<Rightarrow> rx \<Rightarrow> rx" where
  "derivs [] r = r"
| "derivs (c # cs) r = derivs cs (deriv c r)"

definition rxTest :: "rx \<Rightarrow> string \<Rightarrow> bool" where
  "rxTest r s = nullable (derivs s r)"

text \<open>\<^verbatim>\<open>r+\<close>, \<^verbatim>\<open>r?\<close> and \<^verbatim>\<open>r{n}\<close>.\<close>

definition Plus :: "rx \<Rightarrow> rx" where
  "Plus r = Seq r (Star r)"

definition Opt :: "rx \<Rightarrow> rx" where
  "Opt r = Alt r Eps"

fun Times :: "nat \<Rightarrow> rx \<Rightarrow> rx" where
  "Times 0 r = Eps"
| "Times (Suc n) r = Seq r (Times n r)"

definition Lit :: "char \<Rightarrow> rx" where
  "Lit c = Cls (\<lambda>x. x = c)"

text \<open>The language of a regular expression, the reference for \<open>rxTest\<close>.\<close>

definition conc :: "string set \<Rightarrow> string set \<Rightarrow> string set" where
  "conc A B = {u @ v | u v. u \<in> A \<and> v \<in> B}"

inductive_set star :: "string set \<Rightarrow> string set" for A :: "string set" where
  star_empty: "[] \<in> star A"
| star_more: "u \<in> A \<Longrightarrow> v \<in> star A \<Longrightarrow> u @ v \<in> star A"

fun lang :: "rx \<Rightarrow> string set" where
  "lang Fail = {}"
| "lang Eps = {[]}"
| "lang (Cls P) = {[c] | c. P c}"
| "lang (Seq r s) = conc (lang r) (lang s)"
| "lang (Alt r s) = lang r \<union> lang s"
| "lang (Star r) = star (lang r)"

text \<open>
  \<^verbatim>\<open>const isoDateRegex = /^\d{4}-\d{2}-\d{2}$/;\<close> (in the date validator and in
  \<^verbatim>\<open>normalizeDate\<close>).
\<close>

definition isoDateRegex :: rx where
  "isoDateRegex =
     Seq (Times 4 (Cls isDigit))
       (Seq (Cls isHyphen) (Seq (Times 2 (Cls isDigit)) (Seq (Cls isHyphen) (Times 2 (Cls isDigit)))))"

text \<open>\<^verbatim>\<open>const emailRegex = /^[^\s@]+@[^\s@]+\.[^\s@]+$/;\<close> (in the email validator).\<close>

definition isAt :: "char \<Rightarrow> bool" where
  "isAt c = (c = CHR ''@'')"

definition notSpaceAt :: "char \<Rightarrow> bool" where
  "notSpaceAt c = (\<not> isSpace c \<and> \<not> isAt c)"

definition emailRegex :: rx where
  "emailRegex =
     Seq (Plus (Cls notSpaceAt))
       (Seq (Cls isAt) (Seq (Plus (Cls notSpaceAt)) (Seq (Lit CHR ''.'') (Plus (Cls notSpaceAt)))))"

section \<open>Dates of the runtime\<close>

text \<open>
  \<^verbatim>\<open>new Date(string)\<close>, \<^verbatim>\<open>getTime\<close> and \<^verbatim>\<open>toISOString\<close> belong to the
  JavaScript runtime. A Date holds a time value, the milliseconds since 1970-01-01T00:00:00Z,
  or NaN (here \<open>None\<close>). The day arithmetic is that of the ECMAScript specification
  (section "Date Objects").
\<close>

definition msPerDay :: int where
  "msPerDay = 86400000"

definition dayFromYear :: "int \<Rightarrow> int" where
  "dayFromYear y = 365 * (y - 1970) + (y - 1969) div 4 - (y - 1901) div 100 + (y - 1601) div 400"

definition daysInYear :: "int \<Rightarrow> int" where
  "daysInYear y =
     (if y mod 4 \<noteq> 0 then 365 else if y mod 100 \<noteq> 0 then 366 else if y mod 400 \<noteq> 0 then 365
      else 366)"

text \<open>
  The year of a day number: the largest \<open>y\<close> with \<open>dayFromYear y \<le> d\<close>, computed from the
  mean length of a year and corrected by one.
\<close>

definition yearFromDay :: "int \<Rightarrow> int" where
  "yearFromDay d =
     (let y = 1970 + (400 * d) div 146097
      in if d < dayFromYear y then y - 1 else if dayFromYear (y + 1) \<le> d then y + 1 else y)"

definition monthLengths :: "int \<Rightarrow> int list" where
  "monthLengths y = [31, if daysInYear y = 366 then 29 else 28, 31, 30, 31, 30, 31, 31, 30, 31, 30, 31]"

text \<open>Month (from 1) and day of the month (from 1) of the day \<open>r\<close> (from 0) within a year.\<close>

fun walkMonths :: "int list \<Rightarrow> int \<Rightarrow> int \<Rightarrow> int \<times> int" where
  "walkMonths [] m r = (m, r + 1)"
| "walkMonths (l # ls) m r = (if r < l then (m, r + 1) else walkMonths ls (m + 1) (r - l))"

text \<open>\<^verbatim>\<open>MakeDay\<close> for a month from 1 to 12 and a day of that month.\<close>

definition makeDay :: "int \<Rightarrow> int \<Rightarrow> int \<Rightarrow> int" where
  "makeDay y m d = dayFromYear y + sum_list (take (nat (m - 1)) (monthLengths y)) + d - 1"

definition daysInMonth :: "int \<Rightarrow> int \<Rightarrow> int" where
  "daysInMonth y m = (if 1 \<le> m \<and> m \<le> 12 then monthLengths y ! nat (m - 1) else 0)"

subsection \<open>Decimal fields\<close>

definition digitVal :: "char \<Rightarrow> int" where
  "digitVal c = int (code c) - 48"

definition digitChar :: "int \<Rightarrow> char" where
  "digitChar v = char_of (48 + nat v)"

definition numberOf :: "string \<Rightarrow> int" where
  "numberOf s = foldl (\<lambda>a c. 10 * a + digitVal c) 0 s"

text \<open>The last \<open>n\<close> decimal digits of \<open>v\<close>, with leading zeros.\<close>

fun pad :: "nat \<Rightarrow> int \<Rightarrow> string" where
  "pad 0 v = []"
| "pad (Suc n) v = pad n (v div 10) @ [digitChar (v mod 10)]"

text \<open>The decimal number in the \<open>n\<close> characters of \<open>s\<close> from position \<open>i\<close>.\<close>

definition field :: "nat \<Rightarrow> nat \<Rightarrow> string \<Rightarrow> int" where
  "field i n s = numberOf (take n (drop i s))"

subsection \<open>\<^verbatim>\<open>toISOString\<close>\<close>

text \<open>
  The UTC fields of the time value as \<^verbatim>\<open>YYYY-MM-DDTHH:mm:ss.sssZ\<close>; a year outside 0 to
  9999 is written with a sign and six digits.
\<close>

definition yearString :: "int \<Rightarrow> string" where
  "yearString y =
     (if 0 \<le> y \<and> y \<le> 9999 then pad 4 y
      else (if y < 0 then ''-'' else ''+'') @ pad 6 (abs y))"

definition toISOString :: "int \<Rightarrow> string" where
  "toISOString t =
     (let day = t div msPerDay;
          ms = t mod msPerDay;
          y = yearFromDay day;
          (m, d) = walkMonths (monthLengths y) 1 (day - dayFromYear y)
      in yearString y @ ''-'' @ pad 2 m @ ''-'' @ pad 2 d @ ''T''
         @ pad 2 (ms div 3600000) @ '':'' @ pad 2 (ms div 60000 mod 60) @ '':''
         @ pad 2 (ms div 1000 mod 60) @ ''.'' @ pad 3 (ms mod 1000) @ ''Z'')"

subsection \<open>\<^verbatim>\<open>Date.parse\<close>\<close>

text \<open>
  What the runtime adds to the language: the local time zone adjustment (milliseconds to add
  to UTC, for a local time value) and the result of \<^verbatim>\<open>Date.parse\<close> on the strings that
  are no valid instance of the forms modelled below (for most of them the ECMAScript
  specification leaves the result to the implementation).
\<close>

record runtime =
  localTZA :: "int \<Rightarrow> int"
  otherFormats :: "string \<Rightarrow> int option"

text \<open>\<^verbatim>\<open>TimeClip\<close>: a time value lies within 100 million days of the epoch, or is NaN.\<close>

definition timeClip :: "int \<Rightarrow> int option" where
  "timeClip t = (if abs t \<le> 8640000000000000 then Some t else None)"

definition parseOther :: "runtime \<Rightarrow> string \<Rightarrow> int option" where
  "parseOther rt s = (case otherFormats rt s of None \<Rightarrow> None | Some t \<Rightarrow> timeClip t)"

text \<open>
  The forms of the Date Time String Format that the model fixes:
  \<^verbatim>\<open>YYYY-MM-DD\<close> (UTC midnight), and \<^verbatim>\<open>YYYY-MM-DDTHH:mm:ss\<close> followed by
  \<^verbatim>\<open>Z\<close>, by an offset \<^verbatim>\<open>+HH:mm\<close> or \<^verbatim>\<open>-HH:mm\<close>, or by nothing (local time).
\<close>

definition isSign :: "char \<Rightarrow> bool" where
  "isSign c = (c = CHR ''+'' \<or> c = CHR ''-'')"

definition clockRegex :: rx where
  "clockRegex =
     Seq (Times 2 (Cls isDigit)) (Seq (Lit CHR '':'') (Seq (Times 2 (Cls isDigit))
       (Seq (Lit CHR '':'') (Times 2 (Cls isDigit)))))"

definition zoneRegex :: rx where
  "zoneRegex =
     Alt (Lit CHR ''Z'')
       (Seq (Cls isSign) (Seq (Times 2 (Cls isDigit)) (Seq (Lit CHR '':'') (Times 2 (Cls isDigit)))))"

definition dateTimeRegex :: rx where
  "dateTimeRegex = Seq isoDateRegex (Seq (Lit CHR ''T'') (Seq clockRegex (Opt zoneRegex)))"

definition validYMD :: "string \<Rightarrow> bool" where
  "validYMD s =
     (1 \<le> field 5 2 s \<and> field 5 2 s \<le> 12 \<and> 1 \<le> field 8 2 s
      \<and> field 8 2 s \<le> daysInMonth (field 0 4 s) (field 5 2 s))"

definition validClock :: "string \<Rightarrow> bool" where
  "validClock s = (field 11 2 s \<le> 23 \<and> field 14 2 s \<le> 59 \<and> field 17 2 s \<le> 59)"

definition validZone :: "string \<Rightarrow> bool" where
  "validZone s = (length s \<noteq> 25 \<or> (field 20 2 s \<le> 23 \<and> field 23 2 s \<le> 59))"

text \<open>The time value of the written date and clock, read as UTC.\<close>

definition writtenTime :: "string \<Rightarrow> int" where
  "writtenTime s =
     makeDay (field 0 4 s) (field 5 2 s) (field 8 2 s) * msPerDay
     + (if length s = 10 then 0
        else field 11 2 s * 3600000 + field 14 2 s * 60000 + field 17 2 s * 1000)"

text \<open>The offset written after the clock, in milliseconds east of UTC.\<close>

definition writtenOffset :: "string \<Rightarrow> int" where
  "writtenOffset s =
     (if take 1 (drop 19 s) = ''Z'' then 0
      else (if take 1 (drop 19 s) = ''-'' then - 1 else 1)
           * (field 20 2 s * 3600000 + field 23 2 s * 60000))"

definition dateParse :: "runtime \<Rightarrow> string \<Rightarrow> int option" where
  "dateParse rt s =
     (if rxTest isoDateRegex s then
        (if validYMD s then timeClip (writtenTime s) else parseOther rt s)
      else if rxTest dateTimeRegex s then
        (if validYMD s \<and> validClock s \<and> validZone s then
           (if length s = 19 then timeClip (writtenTime s - localTZA rt (writtenTime s))
            else timeClip (writtenTime s - writtenOffset s))
         else parseOther rt s)
      else parseOther rt s)"

subsection \<open>Date normalization\<close>

text \<open>
  \<^verbatim>\<open>
  const normalizeDate = (date: string): string => {
    try {
      const dateObj = new Date(date);
      if (isNaN(dateObj.getTime())) {
        throw new Error("Invalid date");
      }
      // Convert to ISO format and extract date part (YYYY-MM-DD)
      return dateObj.toISOString().split("T")[0];
    } catch {
      // If parsing fails, check if already in ISO format
      const isoDateRegex = /^\d{4}-\d{2}-\d{2}$/;
      if (isoDateRegex.test(date)) {
        return date;
      }
      throw new Error(
        `Invalid date format: ${date}. Expected YYYY-MM-DD or valid date string.`
      );
    }
  };
  \<close>
  A thrown \<^verbatim>\<open>Error\<close> is the left summand, with its message.
\<close>

definition notT :: "char \<Rightarrow> bool" where
  "notT c = (c \<noteq> CHR ''T'')"

definition invalidDateMessage :: "string \<Rightarrow> string" where
  "invalidDateMessage date =
     ''Invalid date format: '' @ date @ ''. Expected YYYY-MM-DD or valid date string.''"

definition normalizeDate :: "runtime \<Rightarrow> string \<Rightarrow> string + string" where
  "normalizeDate rt date =
     (case dateParse rt date of
        Some t \<Rightarrow> Inr (takeWhile notT (toISOString t))
      | None \<Rightarrow>
          if rxTest isoDateRegex date then Inr date
          else Inl (invalidDateMessage date))"

text \<open>\<^verbatim>\<open>const normalizeTime = (time: string): string => { return time.trim(); };\<close>\<close>

definition normalizeTime :: "string \<Rightarrow> string" where
  "normalizeTime time = trim time"

section \<open>The Event model\<close>

text \<open>
  The paths of the Event schema. A path that is absent (\<^verbatim>\<open>undefined\<close>) is \<open>None\<close>; an
  array path is never absent (its default is the empty array). \<open>docId\<close> is the document's
  \<^verbatim>\<open>_id\<close>; \<open>isNew\<close> and \<open>modifiedPaths\<close> are the bookkeeping behind
  \<^verbatim>\<open>this.isNew\<close> and \<^verbatim>\<open>this.isModified(path)\<close>. The timestamps
  \<^verbatim>\<open>createdAt\<close> and \<^verbatim>\<open>updatedAt\<close>, which no validator and no hook reads, are left
  out.
\<close>

record eventFields =
  title :: "string option"
  slug :: "string option"
  description :: "string option"
  overview :: "string option"
  image_f :: "string option"
  venue :: "string option"
  location :: "string option"
  date :: "string option"
  time :: "string option"
  mode :: "string option"
  audience :: "string option"
  agenda :: "string list"
  organizer :: "string option"
  tags :: "string list"

record event = eventFields +
  docId :: string
  isNew :: bool
  modifiedPaths :: "string list"

definition isModified :: "event \<Rightarrow> string \<Rightarrow> bool" where
  "isModified d p = (p \<in> set (modifiedPaths d))"

subsection \<open>Setters of the schema\<close>

text \<open>
  The schema options \<^verbatim>\<open>trim: true\<close> and \<^verbatim>\<open>lowercase: true\<close> are setters: they
  rewrite a value whenever the path is assigned, in the constructor and in a hook alike.
  \<^verbatim>\<open>title\<close>, \<^verbatim>\<open>venue\<close>, \<^verbatim>\<open>location\<close>, \<^verbatim>\<open>time\<close>, \<^verbatim>\<open>audience\<close> and
  \<^verbatim>\<open>organizer\<close> are trimmed, \<^verbatim>\<open>slug\<close> is trimmed and lowercased.
\<close>

definition slugSetter :: "string \<Rightarrow> string" where
  "slugSetter v = toLowerCase (trim v)"

definition providedPaths :: "eventFields \<Rightarrow> string list" where
  "providedPaths f =
     (if title f = None then [] else [''title'']) @ (if slug f = None then [] else [''slug''])
     @ (if description f = None then [] else [''description''])
     @ (if overview f = None then [] else [''overview''])
     @ (if image_f f = None then [] else [''image''])
     @ (if venue f = None then [] else [''venue''])
     @ (if location f = None then [] else [''location''])
     @ (if date f = None then [] else [''date'']) @ (if time f = None then [] else [''time''])
     @ (if mode f = None then [] else [''mode''])
     @ (if audience f = None then [] else [''audience''])
     @ (if agenda f = [] then [] else [''agenda''])
     @ (if organizer f = None then [] else [''organizer''])
     @ (if tags f = [] then [] else [''tags''])"

text \<open>\<^verbatim>\<open>new Event(f)\<close> with the identifier \<open>i\<close>.\<close>

definition newEvent :: "string \<Rightarrow> eventFields \<Rightarrow> event" where
  "newEvent i f =
     \<lparr>title = map_option trim (title f), slug = map_option slugSetter (slug f),
      description = description f, overview = overview f, image_f = image_f f,
      venue = map_option trim (venue f), location = map_option trim (location f),
      date = date f, time = map_option trim (time f), mode = mode f,
      audience = map_option trim (audience f), agenda = agenda f,
      organizer = map_option trim (organizer f), tags = tags f,
      docId = i, isNew = True, modifiedPaths = providedPaths f\<rparr>"

subsection \<open>Validators of the schema\<close>

text \<open>
  \<^verbatim>\<open>required: [true, ...]\<close> on a string path rejects an absent value and the empty
  string. A \<^verbatim>\<open>validate\<close> function is not run on an absent value.
\<close>

definition requiredString :: "string option \<Rightarrow> bool" where
  "requiredString v = (case v of None \<Rightarrow> False | Some s \<Rightarrow> s \<noteq> [])"

text \<open>\<^verbatim>\<open>validator: (value: string) => value.trim().length > 0\<close>\<close>

definition nonEmptyTrimmed :: "string \<Rightarrow> bool" where
  "nonEmptyTrimmed v = (length (trim v) > 0)"

definition textPathOk :: "string option \<Rightarrow> bool" where
  "textPathOk v = (requiredString v \<and> (case v of None \<Rightarrow> True | Some s \<Rightarrow> nonEmptyTrimmed s))"

text \<open>
  \<^verbatim>\<open>
  validator: (value: string) => {
    // Validate ISO date format (YYYY-MM-DD)
    const isoDateRegex = /^\d{4}-\d{2}-\d{2}$/;
    if (!isoDateRegex.test(value)) return false;
    const date = new Date(value);
    return date instanceof Date && !isNaN(date.getTime());
  }
  \<close>
\<close>

definition dateValidator :: "runtime \<Rightarrow> string \<Rightarrow> bool" where
  "dateValidator rt v = (if \<not> rxTest isoDateRegex v then False else dateParse rt v \<noteq> None)"

definition datePathOk :: "runtime \<Rightarrow> string option \<Rightarrow> bool" where
  "datePathOk rt v =
     (requiredString v \<and> (case v of None \<Rightarrow> True | Some s \<Rightarrow> dateValidator rt s))"

text \<open>\<^verbatim>\<open>enum: { values: ["online", "offline", "hybrid"], ... }\<close>\<close>

definition modePathOk :: "string option \<Rightarrow> bool" where
  "modePathOk v =
     (requiredString v
      \<and> (case v of None \<Rightarrow> True | Some s \<Rightarrow> s \<in> set [''online'', ''offline'', ''hybrid'']))"

text \<open>\<^verbatim>\<open>validator: (value: string[]) => Array.isArray(value) && value.length > 0\<close>\<close>

definition listPathOk :: "string list \<Rightarrow> bool" where
  "listPathOk v = (length v > 0)"

definition failing :: "string \<Rightarrow> bool \<Rightarrow> string list" where
  "failing p ok = (if ok then [] else [p])"

text \<open>The paths of a document that fail validation, in the order of the schema.\<close>

definition validateEvent :: "runtime \<Rightarrow> event \<Rightarrow> string list" where
  "validateEvent rt d =
     failing ''title'' (textPathOk (title d))
     @ failing ''description'' (textPathOk (description d))
     @ failing ''overview'' (textPathOk (overview d))
     @ failing ''image'' (textPathOk (image_f d))
     @ failing ''venue'' (textPathOk (venue d))
     @ failing ''location'' (textPathOk (location d))
     @ failing ''date'' (datePathOk rt (date d))
     @ failing ''time'' (textPathOk (time d))
     @ failing ''mode'' (modePathOk (mode d))
     @ failing ''audience'' (textPathOk (audience d))
     @ failing ''agenda'' (listPathOk (agenda d))
     @ failing ''organizer'' (textPathOk (organizer d))
     @ failing ''tags'' (listPathOk (tags d))"

subsection \<open>The pre-save hook\<close>

text \<open>
  \<^verbatim>\<open>
  eventSchema.pre("save", function (next) {
    // Generate slug only if title changed or document is new
    if (this.isModified("title") || this.isNew) {
      this.slug = generateSlug(this.title);
    }
    // Normalize date to ISO format if date field is modified
    if (this.isModified("date")) {
      try {
        this.date = normalizeDate(this.date);
      } catch (error) {
        return next(
          error instanceof Error ? error : new Error("Date normalization failed")
        );
      }
    }
    // Normalize time format if time field is modified
    if (this.isModified("time")) {
      this.time = normalizeTime(this.time);
    }
    next();
  });
  \<close>
  The hook ends in \<^verbatim>\<open>next(error)\<close> or by a thrown error (\<open>Inl\<close>, with the message), or in
  \<^verbatim>\<open>next()\<close> with the document as rewritten (\<open>Inr\<close>). A method called on an absent
  string throws a \<^verbatim>\<open>TypeError\<close>; \<^verbatim>\<open>normalizeDate(undefined)\<close> finds an invalid Date
  and no match of the regular expression, and throws with \<^verbatim>\<open>undefined\<close> in the message.
\<close>

definition typeError :: string where
  "typeError = ''TypeError: Cannot read properties of undefined''"

definition slugStep :: "event \<Rightarrow> string + event" where
  "slugStep d =
     (if isModified d ''title'' \<or> isNew d then
        (case title d of
           None \<Rightarrow> Inl typeError
         | Some t \<Rightarrow>
             Inr (d\<lparr>slug := Some (slugSetter (generateSlug t)),
                    modifiedPaths := ''slug'' # modifiedPaths d\<rparr>))
      else Inr d)"

definition dateStep :: "runtime \<Rightarrow> event \<Rightarrow> string + event" where
  "dateStep rt d =
     (if isModified d ''date'' then
        (case date d of
           None \<Rightarrow> Inl (invalidDateMessage ''undefined'')
         | Some v \<Rightarrow>
             (case normalizeDate rt v of
                Inl e \<Rightarrow> Inl e
              | Inr v' \<Rightarrow> Inr (d\<lparr>date := Some v'\<rparr>)))
      else Inr d)"

definition timeStep :: "event \<Rightarrow> string + event" where
  "timeStep d =
     (if isModified d ''time'' then
        (case time d of
           None \<Rightarrow> Inl typeError
         | Some v \<Rightarrow> Inr (d\<lparr>time := Some (trim (normalizeTime v))\<rparr>))
      else Inr d)"

definition eventPreSave :: "runtime \<Rightarrow> event \<Rightarrow> string + event" where
  "eventPreSave rt d =
     (case slugStep d of
        Inl e \<Rightarrow> Inl e
      | Inr d1 \<Rightarrow>
          (case dateStep rt d1 of
             Inl e \<Rightarrow> Inl e
           | Inr d2 \<Rightarrow> timeStep d2))"

subsection \<open>The store and the save of a document\<close>

text \<open>
  The collection of events carries the index of the schema,
  \<^verbatim>\<open>eventSchema.index({ slug: 1 }, { unique: true })\<close>: a write that would leave two
  documents with the same slug fails with a duplicate-key error. \<open>lookupFault\<close> is a
  failure of the connection to the store, with its message, met by a query.
\<close>

record booking =
  bookingId :: string
  eventId :: "string option"
  email :: "string option"

record database =
  events :: "event list"
  bookings :: "booking list"
  lookupFault :: "string option"

datatype saveError =
  ValidationError "string list"
  | HookError string
  | DuplicateKey string
  | DocumentNotFound

definition stored :: "event \<Rightarrow> event" where
  "stored d = d\<lparr>isNew := False, modifiedPaths := []\<rparr>"

definition insertEvent :: "event \<Rightarrow> database \<Rightarrow> saveError + database" where
  "insertEvent d db =
     (if list_ex (\<lambda>e. slug e = slug d) (events db) then Inl (DuplicateKey ''slug'')
      else Inr (db\<lparr>events := events db @ [stored d]\<rparr>))"

definition updateEvent :: "event \<Rightarrow> database \<Rightarrow> saveError + database" where
  "updateEvent d db =
     (if \<not> list_ex (\<lambda>e. docId e = docId d) (events db) then Inl DocumentNotFound
      else if list_ex (\<lambda>e. docId e \<noteq> docId d \<and> slug e = slug d) (events db)
        then Inl (DuplicateKey ''slug'')
      else Inr (db\<lparr>events := map (\<lambda>e. if docId e = docId d then stored d else e) (events db)\<rparr>))"

text \<open>
  \<^verbatim>\<open>document.save()\<close>. The order of its steps is that of the object-document mapper,
  Mongoose, whose documentation of middleware says: "The save() function triggers validate()
  hooks, because mongoose has a built-in pre('save') hook that calls validate(). This means
  that all pre('validate') and post('validate') hooks get called before any pre('save')
  hooks." So the validators of the schema run first, on the document as the caller left it;
  then the hooks registered with \<^verbatim>\<open>schema.pre("save", ...)\<close>, in the order of their
  registration; then the write. A step that fails ends the save with its error and nothing
  is written. The result is the error or the saved document, and the store after the save.
\<close>

definition saveEvent :: "runtime \<Rightarrow> event \<Rightarrow> database \<Rightarrow> (saveError + event) \<times> database" where
  "saveEvent rt d db =
     (let bad = validateEvent rt d
      in if bad \<noteq> [] then (Inl (ValidationError bad), db)
         else
           (case eventPreSave rt d of
              Inl msg \<Rightarrow> (Inl (HookError msg), db)
            | Inr d' \<Rightarrow>
                (case (if isNew d' then insertEvent d' db else updateEvent d' db) of
                   Inl e \<Rightarrow> (Inl e, db)
                 | Inr db' \<Rightarrow> (Inr (stored d'), db'))))"

text \<open>\<^verbatim>\<open>Event.create(f)\<close>: a new document, saved.\<close>

definition createEvent ::
  "runtime \<Rightarrow> string \<Rightarrow> eventFields \<Rightarrow> database \<Rightarrow> (saveError + event) \<times> database" where
  "createEvent rt i f db = saveEvent rt (newEvent i f) db"

section \<open>The Booking model\<close>

text \<open>
  \<^verbatim>\<open>email\<close> has the setters \<^verbatim>\<open>lowercase: true\<close> and \<^verbatim>\<open>trim: true\<close>;
  \<^verbatim>\<open>new Booking({ eventId, email })\<close> applies them.
\<close>

definition emailSetter :: "string \<Rightarrow> string" where
  "emailSetter v = toLowerCase (trim v)"

text \<open>
  \<^verbatim>\<open>eventId\<close> has the type \<^verbatim>\<open>Schema.Types.ObjectId\<close>: the constructor casts the value
  it is given. The text of an identifier, 24 hexadecimal digits in either case, casts to
  that identifier, which is written in lower case, as the template literal of the hook and
  the \<^verbatim>\<open>_id\<close> of a stored document have it. The cast of another string fails: the path
  stays absent and validation reports it.
\<close>

definition isHexDigit :: "char \<Rightarrow> bool" where
  "isHexDigit c =
     (isDigit c \<or> (65 \<le> code c \<and> code c \<le> 70) \<or> (97 \<le> code c \<and> code c \<le> 102))"

definition castObjectId :: "string \<Rightarrow> string option" where
  "castObjectId v =
     (if length v = 24 \<and> list_all isHexDigit v then Some (toLowerCase v) else None)"

definition newBooking :: "string \<Rightarrow> string option \<Rightarrow> string option \<Rightarrow> booking" where
  "newBooking i e m =
     \<lparr>bookingId = i,
      eventId = (case e of None \<Rightarrow> None | Some v \<Rightarrow> castObjectId v),
      email = map_option emailSetter m\<rparr>"

text \<open>
  \<^verbatim>\<open>
  validator: (value: string) => {
    // Email regex validation
    const emailRegex = /^[^\s@]+@[^\s@]+\.[^\s@]+$/;
    return emailRegex.test(value);
  }
  \<close>
\<close>

definition emailValidator :: "string \<Rightarrow> bool" where
  "emailValidator v = rxTest emailRegex v"

definition emailPathOk :: "string option \<Rightarrow> bool" where
  "emailPathOk v = (requiredString v \<and> (case v of None \<Rightarrow> True | Some s \<Rightarrow> emailValidator s))"

text \<open>
  \<^verbatim>\<open>eventId\<close> is required: the path fails when no value was given and when the value
  given could not be cast.
\<close>

definition validateBooking :: "booking \<Rightarrow> string list" where
  "validateBooking b =
     failing ''eventId'' (eventId b \<noteq> None) @ failing ''email'' (emailPathOk (email b))"

text \<open>\<^verbatim>\<open>Event.findById(id)\<close>: the stored event with that identifier, if any, or the fault of the store.\<close>

definition findById :: "database \<Rightarrow> string \<Rightarrow> string + event option" where
  "findById db i =
     (case lookupFault db of
        Some msg \<Rightarrow> Inl msg
      | None \<Rightarrow> Inr (find (\<lambda>e. docId e = i) (events db)))"

text \<open>
  \<^verbatim>\<open>
  bookingSchema.pre("save", async function (next) {
    try {
      // Check if eventId exists in the Event collection
      const event = await Event.findById(this.eventId);
      if (!event) {
        return next(new Error(`Event with ID ${this.eventId} does not exist`));
      }
      next();
    } catch (error) {
      // Handle database errors or other unexpected errors
      next(
        error instanceof Error
          ? error
          : new Error("Failed to validate event reference")
      );
    }
  });
  \<close>
  The hook ends in \<^verbatim>\<open>next(error)\<close> (\<open>Some\<close>, with the message) or in \<^verbatim>\<open>next()\<close>
  (\<open>None\<close>). A query for an absent identifier finds no document.
\<close>

definition notFoundMessage :: "string \<Rightarrow> string" where
  "notFoundMessage i = ''Event with ID '' @ i @ '' does not exist''"

definition bookingPreSave :: "database \<Rightarrow> booking \<Rightarrow> string option" where
  "bookingPreSave db b =
     (case eventId b of
        None \<Rightarrow> Some (notFoundMessage ''undefined'')
      | Some i \<Rightarrow>
          (case findById db i of
             Inl msg \<Rightarrow> Some msg
           | Inr None \<Rightarrow> Some (notFoundMessage i)
           | Inr (Some e) \<Rightarrow> None))"

text \<open>
  The save of a booking: the validators, the hook, the write. The collection of bookings has
  no unique index.
\<close>

definition saveBooking :: "booking \<Rightarrow> database \<Rightarrow> (saveError + booking) \<times> database" where
  "saveBooking b db =
     (let bad = validateBooking b
      in if bad \<noteq> [] then (Inl (ValidationError bad), db)
         else
           (case bookingPreSave db b of
              Some msg \<Rightarrow> (Inl (HookError msg), db)
            | None \<Rightarrow> (Inr b, db\<lparr>bookings := bookings db @ [b]\<rparr>)))"

definition createBooking ::
  "string \<Rightarrow> string option \<Rightarrow> string option \<Rightarrow> database \<Rightarrow> (saveError + booking) \<times> database" where
  "createBooking i e m db = saveBooking (newBooking i e m) db"

text \<open>
  The pattern of the specification for an email: a local part, \<^verbatim>\<open>@\<close>, a domain part,
  neither of them empty, and no whitespace anywhere.
\<close>

definition specEmailPattern :: "string \<Rightarrow> bool" where
  "specEmailPattern v =
     (\<not> list_ex isSpace v \<and> takeWhile (\<lambda>c. \<not> isAt c) v \<noteq> []
      \<and> length (dropWhile (\<lambda>c. \<not> isAt c) v) \<ge> 2)"

section \<open>The connection manager\<close>

text \<open>
  \<^verbatim>\<open>
  interface MongooseCache {
    conn: Mongoose | null;
    promise: Promise<Mongoose> | null;
  }
  \<close>
  A connection handle and a promise are named by numbers. The process holds the global
  \<^verbatim>\<open>global.mongoose\<close> (absent until the first use), the constant \<^verbatim>\<open>MONGODB_URI\<close>,
  the number of calls of \<^verbatim>\<open>mongoose.connect\<close> made so far (the next promise takes that
  number as its name), the state of every promise (\<open>Unused\<close> until it is created), and
  where every caller of \<^verbatim>\<open>connectDB\<close> stands. \<^verbatim>\<open>disconnectDB\<close> is not part of
  the model.
\<close>

record mongooseCache =
  conn :: "nat option"
  promise :: "nat option"

datatype settlement = Unused | Pending | Fulfilled nat | Rejected string

text \<open>
  A caller has not called, or waits for a promise inside the \<^verbatim>\<open>try\<close> block (it started
  the attempt), or waits for a promise it was handed by \<^verbatim>\<open>return cache.promise\<close>, or has
  its handle, or has its error.
\<close>

datatype callState = Idle | AwaitsOwn nat | AwaitsShared nat | Returned nat | Threw string

record process =
  globalMongoose :: "mongooseCache option"
  mongoUri :: "string option"
  connectCalls :: nat
  promiseState :: "nat \<Rightarrow> settlement"
  callers :: "nat \<Rightarrow> callState"

text \<open>
  \<^verbatim>\<open>
  const getMongooseCache = (): MongooseCache => {
    if (!global.mongoose) {
      global.mongoose = { conn: null, promise: null };
    }
    return global.mongoose;
  };
  \<close>
\<close>

definition getMongooseCache :: "process \<Rightarrow> mongooseCache" where
  "getMongooseCache w =
     (case globalMongoose w of None \<Rightarrow> \<lparr>conn = None, promise = None\<rparr> | Some c \<Rightarrow> c)"

definition uriMissing :: string where
  "uriMissing = ''Please define the MONGODB_URI environment variable inside .env.local''"

text \<open>
  \<^verbatim>\<open>
  const validateMongoUri = (): string => {
    if (!MONGODB_URI) {
      throw new Error(
        "Please define the MONGODB_URI environment variable inside .env.local"
      );
    }
    return MONGODB_URI;
  };
  \<close>
  \<^verbatim>\<open>!MONGODB_URI\<close> holds of the absent string and of the empty string.
\<close>

definition validateMongoUri :: "process \<Rightarrow> string + string" where
  "validateMongoUri w =
     (case mongoUri w of
        None \<Rightarrow> Inl uriMissing
      | Some uri \<Rightarrow> if uri = [] then Inl uriMissing else Inr uri)"

text \<open>
  \<^verbatim>\<open>
  const connectDB = async (): Promise<Mongoose> => {
    const cache = getMongooseCache();
    if (cache.conn) {
      return cache.conn;
    }
    if (cache.promise) {
      return cache.promise;
    }
    const uri = validateMongoUri();
    cache.promise = mongoose.connect(uri).then((mongooseInstance: Mongoose) => {
      cache.conn = mongooseInstance;
      return mongooseInstance;
    });
    try {
      const mongooseInstance = await cache.promise;
      ...
      return mongooseInstance;
    } catch (error) {
      cache.promise = null;
      ...
      throw new Error(`Failed to connect to MongoDB: ${ ... error.message ... }`);
    }
  };
  \<close>
  The call of \<^verbatim>\<open>connectDB\<close> by the caller \<open>k\<close>, up to its first \<^verbatim>\<open>await\<close> or to its
  return. A caller that is handed a promise already settled has the promise's outcome.
\<close>

definition connectDB :: "nat \<Rightarrow> process \<Rightarrow> process" where
  "connectDB k w =
     (let cache = getMongooseCache w;
          w = w\<lparr>globalMongoose := Some cache\<rparr>
      in case conn cache of
           Some h \<Rightarrow> w\<lparr>callers := (callers w)(k := Returned h)\<rparr>
         | None \<Rightarrow>
             (case promise cache of
                Some p \<Rightarrow>
                  w\<lparr>callers := (callers w)(k :=
                      (case promiseState w p of
                         Fulfilled h \<Rightarrow> Returned h
                       | Rejected e \<Rightarrow> Threw e
                       | Pending \<Rightarrow> AwaitsShared p
                       | Unused \<Rightarrow> AwaitsShared p))\<rparr>
              | None \<Rightarrow>
                  (case validateMongoUri w of
                     Inl e \<Rightarrow> w\<lparr>callers := (callers w)(k := Threw e)\<rparr>
                   | Inr uri \<Rightarrow>
                       w\<lparr>globalMongoose := Some (cache\<lparr>promise := Some (connectCalls w)\<rparr>),
                         connectCalls := Suc (connectCalls w),
                         promiseState := (promiseState w)(connectCalls w := Pending),
                         callers := (callers w)(k := AwaitsOwn (connectCalls w))\<rparr>)))"

text \<open>
  The connection attempt behind the pending promise \<open>p\<close> succeeds with the handle \<open>h\<close>: the
  \<^verbatim>\<open>then\<close> callback stores the handle in the cache, the promise is fulfilled, and every
  caller that waits for it goes on and returns the handle.
\<close>

definition resumeFulfilled :: "nat \<Rightarrow> nat \<Rightarrow> callState \<Rightarrow> callState" where
  "resumeFulfilled p h s =
     (if s = AwaitsOwn p \<or> s = AwaitsShared p then Returned h else s)"

definition connectSucceeds :: "nat \<Rightarrow> nat \<Rightarrow> process \<Rightarrow> process" where
  "connectSucceeds p h w =
     (if promiseState w p \<noteq> Pending then w
      else w\<lparr>globalMongoose := Some ((getMongooseCache w)\<lparr>conn := Some h\<rparr>),
             promiseState := (promiseState w)(p := Fulfilled h),
             callers := (\<lambda>k. resumeFulfilled p h (callers w k))\<rparr>)"

text \<open>
  The attempt fails with the message \<open>e\<close>: the promise is rejected; a caller waiting in
  its \<^verbatim>\<open>try\<close> block (the caller that started the attempt, which waits there until the
  promise is settled) clears \<^verbatim>\<open>cache.promise\<close> and throws the wrapped error; a caller
  that was handed the promise has the rejection as it is.
\<close>

definition resumeRejected :: "nat \<Rightarrow> string \<Rightarrow> callState \<Rightarrow> callState" where
  "resumeRejected p e s =
     (if s = AwaitsOwn p then Threw (''Failed to connect to MongoDB: '' @ e)
      else if s = AwaitsShared p then Threw e else s)"

definition connectFails :: "nat \<Rightarrow> string \<Rightarrow> process \<Rightarrow> process" where
  "connectFails p e w =
     (if promiseState w p \<noteq> Pending then w
      else w\<lparr>globalMongoose := Some ((getMongooseCache w)\<lparr>promise := None\<rparr>),
             promiseState := (promiseState w)(p := Rejected e),
             callers := (\<lambda>k. resumeRejected p e (callers w k))\<rparr>)"

text \<open>A process that has just loaded the module, with the connection string \<open>u\<close>.\<close>

definition freshProcess :: "string option \<Rightarrow> process" where
  "freshProcess u =
     \<lparr>globalMongoose = None, mongoUri = u, connectCalls = 0,
      promiseState = (\<lambda>p. Unused), callers = (\<lambda>k. Idle)\<rparr>"

section \<open>Concrete inputs\<close>

text \<open>
  A runtime in the time zone UTC whose \<^verbatim>\<open>Date.parse\<close> rejects every string outside the
  modelled forms, a store without documents, and the fields of an event that passes
  validation whenever its title, date and mode do (the first entry of the static dataset,
  completed).
\<close>

definition utcRuntime :: runtime where
  "utcRuntime = \<lparr>localTZA = (\<lambda>t. 0), otherFormats = (\<lambda>s. None)\<rparr>"

definition emptyDatabase :: database where
  "emptyDatabase = \<lparr>events = [], bookings = [], lookupFault = None\<rparr>"

definition sampleFields :: "string \<Rightarrow> string \<Rightarrow> string \<Rightarrow> eventFields" where
  "sampleFields t d m =
     \<lparr>title = Some t, slug = None, description = Some ''The Next.js conference'',
      overview = Some ''Talks and workshops'', image_f = Some ''/images/event1.png'',
      venue = Some ''Moscone Center'', location = Some ''San Francisco, CA'',
      date = Some d, time = Some ''9:00 AM PDT'', mode = Some m,
      audience = Some ''Developers'', agenda = [''Keynote''], organizer = Some ''Vercel'',
      tags = [''nextjs'']\<rparr>"

section \<open>Properties of the string functions\<close>

lemma isHyphen_code: "isHyphen c = (code c = 45)"
proof -
  have "c = CHR ''-'' \<longleftrightarrow> (of_char c :: nat) = of_char CHR ''-''"
    by (simp only: of_char_eq_iff)
  then show ?thesis by (simp add: isHyphen_def code_def)
qed

lemma code_lowerChar:
  "code (lowerChar c) =
     (if (65 \<le> code c \<and> code c \<le> 90) \<or> (192 \<le> code c \<and> code c \<le> 222 \<and> code c \<noteq> 215)
      then code c + 32 else code c)"
  by (simp add: lowerChar_def code_def)

lemma lowerChar_kept: "keptBySlug (lowerChar c) \<Longrightarrow> slugChar (lowerChar c) \<or> isSpace (lowerChar c)"
  by (auto simp: keptBySlug_def slugChar_def isWord_def isDigit_def isSpace_def isHyphen_code
      code_lowerChar split: if_splits)

lemma slugChar_lower: "slugChar c \<Longrightarrow> lowerChar c = c"
  by (auto simp: slugChar_def isDigit_def isHyphen_code lowerChar_def)

lemma slugChar_not_space: "slugChar c \<Longrightarrow> \<not> isSpace c"
  by (auto simp: slugChar_def isDigit_def isHyphen_code isSpace_def)

lemma slugChar_kept: "slugChar c \<Longrightarrow> keptBySlug c"
  by (auto simp: slugChar_def keptBySlug_def isWord_def)

lemma set_stripBoth: "set (stripBoth P s) \<subseteq> set s"
proof -
  have "set (dropWhile P (rev (dropWhile P s))) \<subseteq> set (rev (dropWhile P s))"
    by (rule set_dropWhileD [THEN subsetI])
  also have "\<dots> \<subseteq> set s"
    by (auto dest: set_dropWhileD)
  finally show ?thesis by (simp add: stripBoth_def)
qed

lemma dropWhile_hd_id: "xs \<noteq> [] \<Longrightarrow> \<not> P (hd xs) \<Longrightarrow> dropWhile P xs = xs"
  by (cases xs) simp_all

lemma stripBoth_id: "s = [] \<or> (\<not> P (hd s) \<and> \<not> P (last s)) \<Longrightarrow> stripBoth P s = s"
proof (cases "s = []")
  case True
  then show ?thesis by (simp add: stripBoth_def)
next
  case False
  assume "s = [] \<or> (\<not> P (hd s) \<and> \<not> P (last s))"
  with False have h: "\<not> P (hd s)" and l: "\<not> P (last s)" by auto
  from False h have a: "dropWhile P s = s" by (rule dropWhile_hd_id)
  from False l have "\<not> P (hd (rev s))" by (simp add: hd_rev)
  with False have "dropWhile P (rev s) = rev s" by (simp add: dropWhile_hd_id)
  with a show ?thesis by (simp add: stripBoth_def)
qed

lemma stripBoth_ends:
  "stripBoth P s = [] \<or> (\<not> P (hd (stripBoth P s)) \<and> \<not> P (last (stripBoth P s)))"
proof (cases "stripBoth P s = []")
  case True
  then show ?thesis by simp
next
  case False
  let ?d = "dropWhile P s"
  let ?e = "dropWhile P (rev ?d)"
  from False have ne: "?e \<noteq> []" by (simp add: stripBoth_def)
  then have l: "\<not> P (hd ?e)" by (rule hd_dropWhile)
  from ne have lst: "last (stripBoth P s) = hd ?e"
    by (simp add: stripBoth_def last_rev)
  have dne: "?d \<noteq> []"
  proof
    assume a: "?d = []"
    from ne show False unfolding a by simp
  qed
  then have hd_d: "\<not> P (hd ?d)" by (rule hd_dropWhile)
  have "hd (rev ?e) = last ?e" using ne by (simp add: hd_rev)
  also have "last ?e = last (rev ?d)" using ne
    by (metis last_appendR takeWhile_dropWhile_id)
  also have "\<dots> = hd ?d" using dne by (simp add: last_rev)
  finally have "hd (stripBoth P s) = hd ?d" by (simp add: stripBoth_def)
  with hd_d l lst show ?thesis by simp
qed

lemma set_collapseRuns: "set (collapseRuns P s) \<subseteq> insert CHR ''-'' {c \<in> set s. \<not> P c}"
proof (induction P s rule: collapseRuns.induct)
  case (1 P)
  then show ?case by simp
next
  case (2 P c cs)
  show ?case
  proof (cases "P c")
    case True
    with 2 have "set (collapseRuns P (dropWhile P cs)) \<subseteq> insert CHR ''-'' {c \<in> set (dropWhile P cs). \<not> P c}"
      by simp
    also have "\<dots> \<subseteq> insert CHR ''-'' {c \<in> set cs. \<not> P c}"
      by (auto dest: set_dropWhileD)
    finally show ?thesis using True by auto
  next
    case False
    with 2 show ?thesis by auto
  qed
qed

lemma collapseRuns_id: "\<forall>c \<in> set s. \<not> P c \<Longrightarrow> collapseRuns P s = s"
  by (induction s) simp_all

lemma noDoubleHyphen_Cons: "noDoubleHyphen (c # s) = ((s = [] \<or> \<not> (isHyphen c \<and> isHyphen (hd s))) \<and> noDoubleHyphen s)"
  by (cases s) auto

lemma collapseHyphen_hd: "collapseRuns isHyphen s \<noteq> [] \<Longrightarrow> isHyphen (hd (collapseRuns isHyphen s)) \<Longrightarrow> s \<noteq> [] \<and> isHyphen (hd s)"
  by (cases s) (auto split: if_splits)

lemma noDouble_collapse: "noDoubleHyphen (collapseRuns isHyphen s)"
proof (induction isHyphen s rule: collapseRuns.induct)
  case 1
  then show ?case by simp
next
  case (2 c cs)
  show ?case
  proof (cases "isHyphen c")
    case True
    let ?d = "dropWhile isHyphen cs"
    have "collapseRuns isHyphen ?d = [] \<or> \<not> isHyphen (hd (collapseRuns isHyphen ?d))"
    proof (cases "collapseRuns isHyphen ?d = []")
      case False
      { assume "isHyphen (hd (collapseRuns isHyphen ?d))"
        with False have "?d \<noteq> [] \<and> isHyphen (hd ?d)" by (rule collapseHyphen_hd)
        then have False using hd_dropWhile by blast }
      then show ?thesis by blast
    qed simp
    with True 2 show ?thesis by (simp add: noDoubleHyphen_Cons)
  next
    case False
    with 2 show ?thesis by (simp add: noDoubleHyphen_Cons)
  qed
qed

lemma collapseHyphen_id: "noDoubleHyphen s \<Longrightarrow> collapseRuns isHyphen s = s"
proof (induction s rule: noDoubleHyphen.induct)
  case (3 c d cs)
  then show ?case by (cases "isHyphen c") (auto simp: isHyphen_def)
qed (auto simp: isHyphen_def)

lemma noDouble_append: "noDoubleHyphen (u @ v) \<Longrightarrow> noDoubleHyphen u \<and> noDoubleHyphen v"
proof (induction u rule: noDoubleHyphen.induct)
  case 1
  then show ?case by simp
next
  case (2 c)
  then show ?case by (cases v) auto
next
  case (3 c d cs)
  then show ?case by auto
qed

lemma stripBoth_within: "\<exists>u v. s = u @ stripBoth P s @ v"
proof -
  let ?d = "dropWhile P s"
  let ?e = "dropWhile P (rev ?d)"
  have "rev ?e @ rev (takeWhile P (rev ?d)) = rev (takeWhile P (rev ?d) @ ?e)"
    by (simp only: rev_append)
  also have "\<dots> = rev (rev ?d)" by (simp only: takeWhile_dropWhile_id)
  also have "\<dots> = ?d" by (simp only: rev_rev_ident)
  finally have d: "stripBoth P s @ rev (takeWhile P (rev ?d)) = ?d"
    by (simp only: stripBoth_def)
  have "s = takeWhile P s @ ?d" by (simp only: takeWhile_dropWhile_id)
  with d have "s = takeWhile P s @ stripBoth P s @ rev (takeWhile P (rev ?d))"
    by (simp only:)
  then show ?thesis by blast
qed

lemma noDouble_stripBoth: "noDoubleHyphen s \<Longrightarrow> noDoubleHyphen (stripBoth P s)"
proof -
  assume a: "noDoubleHyphen s"
  obtain u v where "s = u @ stripBoth P s @ v" using stripBoth_within by blast
  with a have "noDoubleHyphen (u @ stripBoth P s @ v)" by simp
  then have "noDoubleHyphen (stripBoth P s @ v)" by (blast dest: noDouble_append)
  then show ?thesis by (blast dest: noDouble_append)
qed

lemma noDouble_no_pair: "noDoubleHyphen s \<Longrightarrow> \<not> (\<exists>u v. s = u @ ''--'' @ v)"
proof
  assume n: "noDoubleHyphen s" and "\<exists>u v. s = u @ ''--'' @ v"
  then obtain u v where "s = u @ ''--'' @ v" by blast
  with n have "noDoubleHyphen (''--'' @ v)" by (blast dest: noDouble_append)
  then show False by (simp add: isHyphen_def)
qed

lemma slugForm_generateSlug: "slugForm (generateSlug T)"
proof -
  let ?a = "filter keptBySlug (trim (toLowerCase T))"
  let ?b = "collapseRuns isSpace ?a"
  let ?c = "collapseRuns isHyphen ?b"
  have "set (trim (toLowerCase T)) \<subseteq> set (toLowerCase T)"
    by (simp add: trim_def set_stripBoth)
  then have a: "\<forall>c \<in> set ?a. slugChar c \<or> isSpace c"
    by (auto simp: toLowerCase_def dest: lowerChar_kept)
  have b: "\<forall>c \<in> set ?b. slugChar c"
  proof
    fix c assume "c \<in> set ?b"
    then have "c = CHR ''-'' \<or> (c \<in> set ?a \<and> \<not> isSpace c)"
      using set_collapseRuns [of isSpace ?a] by blast
    with a show "slugChar c" by (auto simp: slugChar_def isHyphen_def)
  qed
  have c: "\<forall>c \<in> set ?c. slugChar c"
  proof
    fix c assume "c \<in> set ?c"
    then have "c = CHR ''-'' \<or> c \<in> set ?b"
      using set_collapseRuns [of isHyphen ?b] by blast
    with b show "slugChar c" by (auto simp: slugChar_def isHyphen_def)
  qed
  have "set (generateSlug T) \<subseteq> set ?c"
    by (simp add: generateSlug_def set_stripBoth)
  with c have 1: "list_all slugChar (generateSlug T)"
    by (auto simp: list_all_iff)
  have 2: "generateSlug T = [] \<or> (\<not> isHyphen (hd (generateSlug T)) \<and> \<not> isHyphen (last (generateSlug T)))"
    unfolding generateSlug_def by (rule stripBoth_ends)
  have 3: "noDoubleHyphen (generateSlug T)"
    unfolding generateSlug_def by (rule noDouble_stripBoth) (rule noDouble_collapse)
  from 1 2 3 show ?thesis by (simp add: slugForm_def)
qed

lemma generateSlug_fixed: "slugForm s \<Longrightarrow> generateSlug s = s"
proof -
  assume f: "slugForm s"
  then have all: "\<forall>c \<in> set s. slugChar c" by (simp add: slugForm_def list_all_iff)
  then have 1: "toLowerCase s = s"
    by (simp add: toLowerCase_def slugChar_lower map_idI)
  from all have ns: "\<forall>c \<in> set s. \<not> isSpace c" by (blast dest: slugChar_not_space)
  have 2: "trim s = s"
  proof (cases "s = []")
    case True
    then show ?thesis by (simp add: trim_def stripBoth_def)
  next
    case False
    with ns have "\<not> isSpace (hd s) \<and> \<not> isSpace (last s)" by simp
    then show ?thesis by (simp add: trim_def stripBoth_id)
  qed
  from all have 3: "filter keptBySlug s = s" by (simp add: slugChar_kept)
  from ns have 4: "collapseRuns isSpace s = s" by (rule collapseRuns_id)
  from f have 5: "collapseRuns isHyphen s = s" by (simp add: slugForm_def collapseHyphen_id)
  from f have 6: "stripBoth isHyphen s = s" by (simp add: slugForm_def stripBoth_id)
  show ?thesis by (simp add: generateSlug_def 1 2 3 4 5 6)
qed

section \<open>The regular-expression test decides the language\<close>

lemma conc_Nil: "[] \<in> conc A B \<longleftrightarrow> [] \<in> A \<and> [] \<in> B"
  by (auto simp: conc_def)

lemma nullable_lang: "nullable r \<longleftrightarrow> [] \<in> lang r"
  by (induction r) (auto simp: conc_Nil intro: star.star_empty)

lemma conc_Cons:
  "c # s \<in> conc A B \<longleftrightarrow>
     (\<exists>u v. s = u @ v \<and> c # u \<in> A \<and> v \<in> B) \<or> ([] \<in> A \<and> c # s \<in> B)"
proof
  assume "c # s \<in> conc A B"
  then obtain x y where xy: "c # s = x @ y" "x \<in> A" "y \<in> B"
    by (auto simp: conc_def)
  show "(\<exists>u v. s = u @ v \<and> c # u \<in> A \<and> v \<in> B) \<or> ([] \<in> A \<and> c # s \<in> B)"
  proof (cases x)
    case Nil
    with xy show ?thesis by simp
  next
    case (Cons a u)
    with xy have "s = u @ y" "c # u \<in> A" by auto
    with xy show ?thesis by blast
  qed
next
  assume "(\<exists>u v. s = u @ v \<and> c # u \<in> A \<and> v \<in> B) \<or> ([] \<in> A \<and> c # s \<in> B)"
  then show "c # s \<in> conc A B"
  proof
    assume "\<exists>u v. s = u @ v \<and> c # u \<in> A \<and> v \<in> B"
    then obtain u v where "s = u @ v" "c # u \<in> A" "v \<in> B" by blast
    then have "c # s = (c # u) @ v" by simp
    with \<open>c # u \<in> A\<close> \<open>v \<in> B\<close> show ?thesis unfolding conc_def by blast
  next
    assume "[] \<in> A \<and> c # s \<in> B"
    then have "c # s = [] @ (c # s)" "[] \<in> A" "c # s \<in> B" by simp_all
    then show ?thesis unfolding conc_def by blast
  qed
qed

lemma star_Cons_split:
  "w \<in> star A \<Longrightarrow> w = c # s \<Longrightarrow> \<exists>u v. s = u @ v \<and> c # u \<in> A \<and> v \<in> star A"
proof (induction arbitrary: c s rule: star.induct)
  case star_empty
  then show ?case by simp
next
  case (star_more u v)
  show ?case
  proof (cases u)
    case Nil
    with star_more show ?thesis by simp
  next
    case (Cons a x)
    with star_more.prems have "s = x @ v" "a = c" by simp_all
    with Cons star_more.hyps show ?thesis by blast
  qed
qed

lemma star_Cons:
  "c # s \<in> star A \<longleftrightarrow> (\<exists>u v. s = u @ v \<and> c # u \<in> A \<and> v \<in> star A)"
proof
  assume "c # s \<in> star A"
  then show "\<exists>u v. s = u @ v \<and> c # u \<in> A \<and> v \<in> star A"
    by (rule star_Cons_split) simp
next
  assume "\<exists>u v. s = u @ v \<and> c # u \<in> A \<and> v \<in> star A"
  then obtain u v where "s = u @ v" "c # u \<in> A" "v \<in> star A" by blast
  then have "(c # u) @ v \<in> star A" by (blast intro: star.star_more)
  with \<open>s = u @ v\<close> show "c # s \<in> star A" by simp
qed

lemma lang_deriv: "s \<in> lang (deriv c r) \<longleftrightarrow> c # s \<in> lang r"
proof (induction r arbitrary: s)
  case (Seq r1 r2)
  then show ?case
    by (auto simp: conc_Cons nullable_lang) (auto simp: conc_def)
next
  case (Star r)
  then show ?case
    by (auto simp: star_Cons) (auto simp: conc_def)
qed auto

lemma derivs_lang: "nullable (derivs s r) \<longleftrightarrow> s \<in> lang r"
  by (induction s arbitrary: r) (simp_all add: nullable_lang lang_deriv)

lemma rxTest_lang: "rxTest r s \<longleftrightarrow> s \<in> lang r"
  by (simp add: rxTest_def derivs_lang)

lemma conc_Cls: "s \<in> conc {[c] | c. P c} B \<longleftrightarrow> (\<exists>c v. s = c # v \<and> P c \<and> v \<in> B)"
  unfolding conc_def by (auto intro: exI [of _ "[hd s]"])

lemma lang_Times_Cls: "lang (Times n (Cls P)) = {s. length s = n \<and> list_all P s}"
proof (induction n)
  case 0
  then show ?case by auto
next
  case (Suc n)
  show ?case
  proof (rule set_eqI)
    fix s
    show "s \<in> lang (Times (Suc n) (Cls P)) \<longleftrightarrow> s \<in> {s. length s = Suc n \<and> list_all P s}"
      by (cases s) (auto simp: Suc conc_Cls)
  qed
qed

lemma star_Cls: "star {[c] | c. P c} = {s. list_all P s}"
proof (rule set_eqI)
  fix s
  show "s \<in> star {[c] | c. P c} \<longleftrightarrow> s \<in> {s. list_all P s}"
  proof (induction s)
    case Nil
    then show ?case by (simp add: star.star_empty)
  next
    case (Cons a s)
    then show ?case by (auto simp: star_Cons)
  qed
qed

lemma lang_Plus_Cls: "lang (Plus (Cls P)) = {s. s \<noteq> [] \<and> list_all P s}"
proof (rule set_eqI)
  fix s
  show "s \<in> lang (Plus (Cls P)) \<longleftrightarrow> s \<in> {s. s \<noteq> [] \<and> list_all P s}"
    by (cases s) (auto simp: Plus_def conc_Cls star_Cls)
qed

lemma lang_Lit: "lang (Lit c) = {[c]}"
  by (auto simp: Lit_def)

section \<open>The email pattern\<close>

lemma conc_iff: "s \<in> conc A B \<longleftrightarrow> (\<exists>u v. s = u @ v \<and> u \<in> A \<and> v \<in> B)"
  by (auto simp: conc_def)

lemma lang_emailRegex:
  "v \<in> lang emailRegex \<longleftrightarrow>
     (\<exists>l y z. v = l @ ''@'' @ y @ ''.'' @ z \<and> l \<noteq> [] \<and> y \<noteq> [] \<and> z \<noteq> []
        \<and> list_all notSpaceAt l \<and> list_all notSpaceAt y \<and> list_all notSpaceAt z)"
proof -
  have at: "lang (Cls isAt) = {''@''}" by (auto simp: isAt_def)
  have dot: "lang (Lit CHR ''.'') = {''.''}" by (rule lang_Lit)
  let ?N = "{s. s \<noteq> [] \<and> list_all notSpaceAt s}"
  have "v \<in> lang emailRegex \<longleftrightarrow> v \<in> conc ?N (conc {''@''} (conc ?N (conc {''.''} ?N)))"
    by (simp only: emailRegex_def lang.simps(4) lang_Plus_Cls at dot)
  also have "\<dots> \<longleftrightarrow> (\<exists>l y z. v = l @ ''@'' @ y @ ''.'' @ z \<and> l \<in> ?N \<and> y \<in> ?N \<and> z \<in> ?N)"
    unfolding conc_iff by blast
  finally show ?thesis by auto
qed

lemma emailPathOk_iff:
  "emailPathOk (Some v) \<longleftrightarrow>
     (\<exists>l y z. v = l @ ''@'' @ y @ ''.'' @ z \<and> l \<noteq> [] \<and> y \<noteq> [] \<and> z \<noteq> []
        \<and> list_all notSpaceAt (l @ y @ z))"
  by (auto simp: emailPathOk_def requiredString_def emailValidator_def rxTest_lang lang_emailRegex)

section \<open>Properties of the calendar arithmetic and of date normalization\<close>

lemma div_step:
  fixes x n :: int
  assumes "0 < n"
  shows "(x + 1) div n = x div n + (if (x + 1) mod n = 0 then 1 else 0)"
proof -
  let ?q = "x div n" and ?r = "x mod n"
  have x: "x = n * ?q + ?r" by simp
  have r: "0 \<le> ?r" "?r < n" using assms by simp_all
  show ?thesis
  proof (cases "?r = n - 1")
    case True
    with x have e: "x + 1 = n * (?q + 1) + 0" by (simp add: algebra_simps)
    have "(x + 1) div n = ?q + 1"
      by (rule int_div_pos_eq [OF e]) (use assms in simp_all)
    moreover have "(x + 1) mod n = 0"
      by (rule int_mod_pos_eq [OF e]) (use assms in simp_all)
    ultimately show ?thesis by simp
  next
    case False
    with r have r1: "0 \<le> ?r + 1" "?r + 1 < n" by simp_all
    from x have e: "x + 1 = n * ?q + (?r + 1)" by simp
    have "(x + 1) div n = ?q" by (rule int_div_pos_eq [OF e r1])
    moreover have "(x + 1) mod n = ?r + 1" by (rule int_mod_pos_eq [OF e r1])
    ultimately show ?thesis using r by simp
  qed
qed

lemma mod_shift: "(y - n * k) mod n = y mod n" for y n k :: int
proof -
  have "(y - n * k) mod n = (y + n * (- k)) mod n" by simp
  also have "\<dots> = y mod n" by (rule mod_mult_self2)
  finally show ?thesis .
qed

lemma m4: "(y - 1968) mod 4 = y mod 4" for y :: int
  using mod_shift [of y 4 492] by simp

lemma m100: "(y - 1900) mod 100 = y mod 100" for y :: int
  using mod_shift [of y 100 19] by simp

lemma m400: "(y - 1600) mod 400 = y mod 400" for y :: int
  using mod_shift [of y 400 4] by simp

lemma mod_100_4: "y mod 100 = 0 \<Longrightarrow> y mod 4 = 0" for y :: int
proof -
  assume a: "y mod 100 = 0"
  have "(4::int) dvd 100" by simp
  then have "y mod 100 mod 4 = y mod 4" by (rule mod_mod_cancel)
  with a show ?thesis by simp
qed

lemma mod_400_100: "y mod 400 = 0 \<Longrightarrow> y mod 100 = 0" for y :: int
proof -
  assume a: "y mod 400 = 0"
  have "(100::int) dvd 400" by simp
  then have "y mod 400 mod 100 = y mod 100" by (rule mod_mod_cancel)
  with a show ?thesis by simp
qed


lemma dayFromYear_Suc: "dayFromYear (y + 1) = dayFromYear y + daysInYear y"
proof -
  have a: "(y - 1968) div 4 = (y - 1969) div 4 + (if y mod 4 = 0 then 1 else 0)"
    using div_step [of 4 "y - 1969"] m4 [of y] by (simp add: algebra_simps)
  have b: "(y - 1900) div 100 = (y - 1901) div 100 + (if y mod 100 = 0 then 1 else 0)"
    using div_step [of 100 "y - 1901"] m100 [of y] by (simp add: algebra_simps)
  have c: "(y - 1600) div 400 = (y - 1601) div 400 + (if y mod 400 = 0 then 1 else 0)"
    using div_step [of 400 "y - 1601"] m400 [of y] by (simp add: algebra_simps)
  have e: "y + 1 - 1969 = y - 1968" "y + 1 - 1901 = y - 1900" "y + 1 - 1601 = y - 1600"
    "y + 1 - 1970 = y - 1970 + 1"
    by simp_all
  show ?thesis
    unfolding dayFromYear_def daysInYear_def e a b c
    using mod_100_4 [of y] mod_400_100 [of y] by auto
qed

lemma floor_bounds:
  fixes x n :: int
  assumes "0 < n"
  shows "n * (x div n) \<le> x" and "x < n * (x div n) + n"
proof -
  have x: "x = n * (x div n) + x mod n" by simp
  have "0 \<le> x mod n" "x mod n < n" using assms by simp_all
  with x show "n * (x div n) \<le> x" and "x < n * (x div n) + n" by linarith+
qed

lemma dayFromYear_bounds:
  "146097 * y - 287811596 \<le> 400 * dayFromYear y"
  "400 * dayFromYear y \<le> 146097 * y - 287810501"
proof -
  define a where "a = (y - 1969) div 4"
  define b where "b = (y - 1901) div 100"
  define c where "c = (y - 1601) div 400"
  have a: "4 * a \<le> y - 1969" "y - 1969 < 4 * a + 4"
    unfolding a_def by (rule floor_bounds, simp)+
  have b: "100 * b \<le> y - 1901" "y - 1901 < 100 * b + 100"
    unfolding b_def by (rule floor_bounds, simp)+
  have c: "400 * c \<le> y - 1601" "y - 1601 < 400 * c + 400"
    unfolding c_def by (rule floor_bounds, simp)+
  have d: "dayFromYear y = 365 * (y - 1970) + a - b + c"
    by (simp add: dayFromYear_def a_def b_def c_def)
  from a b c show "146097 * y - 287811596 \<le> 400 * dayFromYear y"
    unfolding d by (simp add: algebra_simps)
  from a b c show "400 * dayFromYear y \<le> 146097 * y - 287810501"
    unfolding d by (simp add: algebra_simps)
qed

lemma daysInYear_cases: "daysInYear y = 365 \<or> daysInYear y = 366"
  by (simp add: daysInYear_def)

text \<open>\<open>yearFromDay\<close> finds the year in which a day lies.\<close>

lemma yearFromDay_unique:
  assumes "dayFromYear Y \<le> k" and "k < dayFromYear (Y + 1)"
  shows "yearFromDay k = Y"
proof -
  define q where "q = (400 * k) div 146097"
  have q: "146097 * q \<le> 400 * k" "400 * k < 146097 * q + 146097"
    unfolding q_def by (rule floor_bounds, simp)+
  from dayFromYear_bounds(1) [of Y] assms(1) q(2) have lo: "Y - 1971 \<le> q" by linarith
  have "400 * dayFromYear (Y + 1) \<le> 146097 * Y - 287664404"
    using dayFromYear_bounds(2) [of "Y + 1"] by (simp add: algebra_simps)
  with assms(2) q(1) have hi: "q \<le> Y - 1969" by linarith
  have s0: "dayFromYear Y = dayFromYear (Y - 1) + daysInYear (Y - 1)"
    using dayFromYear_Suc [of "Y - 1"] by simp
  from lo hi consider "q = Y - 1971" | "q = Y - 1970" | "q = Y - 1969" by linarith
  then show ?thesis
  proof cases
    case 1
    then have y: "1970 + q = Y - 1" by simp
    from s0 daysInYear_cases [of "Y - 1"] assms(1) have "\<not> k < dayFromYear (Y - 1)" by linarith
    with assms(1) show ?thesis
      unfolding yearFromDay_def q_def [symmetric] Let_def y by simp
  next
    case 2
    then have y: "1970 + q = Y" by simp
    from assms show ?thesis
      unfolding yearFromDay_def q_def [symmetric] Let_def y by simp
  next
    case 3
    then have y: "1970 + q = Y + 1" by simp
    from assms show ?thesis
      unfolding yearFromDay_def q_def [symmetric] Let_def y by simp
  qed
qed


lemma walkMonths_at:
  assumes "i < length ls" and "\<forall>l \<in> set ls. 0 \<le> l" and "0 \<le> r" and "r < ls ! i"
  shows "walkMonths ls m (sum_list (take i ls) + r) = (m + int i, r + 1)"
  using assms
proof (induction ls arbitrary: i m)
  case Nil
  then show ?case by simp
next
  case (Cons l ls)
  show ?case
  proof (cases i)
    case 0
    with Cons.prems show ?thesis by simp
  next
    case (Suc j)
    with Cons.prems have j: "j < length ls" "\<forall>l \<in> set ls. 0 \<le> l" "r < ls ! j" "0 \<le> l"
      by simp_all
    have "0 \<le> sum_list (take j ls)"
      by (rule sum_list_nonneg) (use j(2) in \<open>auto dest: in_set_takeD\<close>)
    with Cons.prems(3) have "\<not> l + sum_list (take j ls) + r < l" by simp
    moreover have "walkMonths ls (m + 1) (sum_list (take j ls) + r) = (m + 1 + int j, r + 1)"
      by (rule Cons.IH [OF j(1,2) Cons.prems(3) j(3)])
    ultimately show ?thesis using Suc by (simp add: algebra_simps)
  qed
qed

lemma offset_in_year:
  fixes ls :: "int list"
  assumes "i < length ls" and "\<forall>l \<in> set ls. 0 \<le> l" and "r < ls ! i"
  shows "sum_list (take i ls) + r < sum_list ls"
proof -
  have "ls = take i ls @ ls ! i # drop (Suc i) ls"
    using assms(1) by (rule id_take_nth_drop)
  then have "sum_list ls = sum_list (take i ls) + ls ! i + sum_list (drop (Suc i) ls)"
    by (metis sum_list.Cons sum_list.append add.assoc)
  moreover have "0 \<le> sum_list (drop (Suc i) ls)"
    by (rule sum_list_nonneg) (use assms(2) in \<open>auto dest: in_set_dropD\<close>)
  ultimately show ?thesis using assms(3) by simp
qed

lemma monthLengths_facts:
  "length (monthLengths y) = 12" "\<forall>l \<in> set (monthLengths y). 0 \<le> l"
  "sum_list (monthLengths y) = daysInYear y"
  using daysInYear_cases [of y] by (auto simp: monthLengths_def)

text \<open>The day number of a date of the calendar lies in the year of that date.\<close>

lemma makeDay_in_year:
  assumes "1 \<le> m" and "m \<le> 12" and "1 \<le> d" and "d \<le> daysInMonth y m"
  shows "dayFromYear y \<le> makeDay y m d" and "makeDay y m d < dayFromYear (y + 1)"
    and "walkMonths (monthLengths y) 1 (makeDay y m d - dayFromYear y) = (m, d)"
proof -
  let ?i = "nat (m - 1)"
  let ?off = "sum_list (take ?i (monthLengths y)) + (d - 1)"
  from assms(1,2) have i: "?i < length (monthLengths y)" by (simp add: monthLengths_facts)
  from assms(1,2,4) have r: "d - 1 < monthLengths y ! ?i" by (simp add: daysInMonth_def)
  from assms(3) have r0: "0 \<le> d - 1" by simp
  have mk: "makeDay y m d = dayFromYear y + ?off" by (simp add: makeDay_def)
  have "0 \<le> sum_list (take ?i (monthLengths y))"
    by (rule sum_list_nonneg) (use monthLengths_facts(2) in \<open>auto dest: in_set_takeD\<close>)
  with r0 show "dayFromYear y \<le> makeDay y m d" by (simp add: mk)
  have "?off < daysInYear y"
    using offset_in_year [OF i monthLengths_facts(2) r] by (simp add: monthLengths_facts)
  then show "makeDay y m d < dayFromYear (y + 1)" by (simp add: mk dayFromYear_Suc)
  have "walkMonths (monthLengths y) 1 ?off = (1 + int ?i, d - 1 + 1)"
    by (rule walkMonths_at [OF i monthLengths_facts(2) r0 r])
  with assms(1) show "walkMonths (monthLengths y) 1 (makeDay y m d - dayFromYear y) = (m, d)"
    by (simp add: mk)
qed

text \<open>The day number of a date of the calendar has the year, the month and the day of that date.\<close>

lemma civil_of_makeDay:
  assumes "1 \<le> m" and "m \<le> 12" and "1 \<le> d" and "d \<le> daysInMonth y m"
  shows "yearFromDay (makeDay y m d) = y"
    and "walkMonths (monthLengths y) 1 (makeDay y m d - dayFromYear y) = (m, d)"
  using makeDay_in_year [OF assms] by (simp_all add: yearFromDay_unique)

text \<open>The days of the years 0 to 9999 are within the range of a time value.\<close>

lemma makeDay_clip:
  assumes "1 \<le> m" and "m \<le> 12" and "1 \<le> d" and "d \<le> daysInMonth y m"
    and "0 \<le> y" and "y \<le> 9999"
  shows "timeClip (makeDay y m d * msPerDay) = Some (makeDay y m d * msPerDay)"
proof -
  have "400 * dayFromYear (y + 1) \<le> 146097 * y - 287664404"
    using dayFromYear_bounds(2) [of "y + 1"] by (simp add: algebra_simps)
  with makeDay_in_year(1,2) [OF assms(1-4)] dayFromYear_bounds(1) [of y] assms(5,6)
  have "- 719530 \<le> makeDay y m d" "makeDay y m d \<le> 2932898" by linarith+
  then show ?thesis by (simp add: timeClip_def msPerDay_def)
qed

lemma digitVal_range: "isDigit c \<Longrightarrow> 0 \<le> digitVal c \<and> digitVal c \<le> 9"
  by (auto simp: isDigit_def digitVal_def)

lemma digitChar_digitVal: "isDigit c \<Longrightarrow> digitChar (digitVal c) = c"
proof -
  assume "isDigit c"
  then have "48 + nat (int (code c) - 48) = code c" unfolding isDigit_def by arith
  then show ?thesis by (simp add: digitVal_def digitChar_def) (simp add: code_def)
qed

lemma numberOf_snoc: "numberOf (ds @ [c]) = 10 * numberOf ds + digitVal c"
  by (simp add: numberOf_def)

lemma numberOf_bounds: "list_all isDigit ds \<Longrightarrow> 0 \<le> numberOf ds \<and> numberOf ds < 10 ^ length ds"
proof (induction ds rule: rev_induct)
  case Nil
  then show ?case by (simp add: numberOf_def)
next
  case (snoc c ds)
  then have "0 \<le> numberOf ds" "numberOf ds + 1 \<le> 10 ^ length ds" "isDigit c" by simp_all
  with digitVal_range [of c] show ?case
    unfolding numberOf_snoc by simp
qed

lemma pad_numberOf: "list_all isDigit ds \<Longrightarrow> pad (length ds) (numberOf ds) = ds"
proof (induction ds rule: rev_induct)
  case Nil
  then show ?case by simp
next
  case (snoc c ds)
  then have ih: "pad (length ds) (numberOf ds) = ds" and c: "isDigit c" by simp_all
  from digitVal_range [OF c] have
    "(10 * numberOf ds + digitVal c) div 10 = numberOf ds"
    "(10 * numberOf ds + digitVal c) mod 10 = digitVal c"
    by simp_all
  with ih c show ?case
    unfolding numberOf_snoc by (simp add: digitChar_digitVal)
qed

lemma isDigit_notT: "isDigit c \<Longrightarrow> notT c"
  by (auto simp: isDigit_def notT_def code_def)

lemma lang_isoDateRegex:
  "s \<in> lang isoDateRegex \<longleftrightarrow>
     (\<exists>Y M D. s = Y @ ''-'' @ M @ ''-'' @ D \<and> length Y = 4 \<and> length M = 2 \<and> length D = 2
        \<and> list_all isDigit Y \<and> list_all isDigit M \<and> list_all isDigit D)"
proof -
  have h: "lang (Cls isHyphen) = {''-''}" by (auto simp: isHyphen_def)
  let ?N = "\<lambda>n. {s. length s = n \<and> list_all isDigit s}"
  have "s \<in> lang isoDateRegex \<longleftrightarrow> s \<in> conc (?N 4) (conc {''-''} (conc (?N 2) (conc {''-''} (?N 2))))"
    by (simp only: isoDateRegex_def lang.simps(4) lang_Times_Cls h)
  also have "\<dots> \<longleftrightarrow> (\<exists>Y M D. s = Y @ ''-'' @ M @ ''-'' @ D \<and> Y \<in> ?N 4 \<and> M \<in> ?N 2 \<and> D \<in> ?N 2)"
    unfolding conc_iff by blast
  finally show ?thesis by auto
qed

lemma pad_zero: "pad 2 0 = ''00''" "pad 3 0 = ''000''"
  by code_simp+

lemma toISOString_midnight:
  assumes "1 \<le> m" and "m \<le> 12" and "1 \<le> d" and "d \<le> daysInMonth y m"
  shows "toISOString (makeDay y m d * msPerDay)
           = yearString y @ ''-'' @ pad 2 m @ ''-'' @ pad 2 d @ ''T00:00:00.000Z''"
proof -
  have "makeDay y m d * msPerDay div msPerDay = makeDay y m d"
    "makeDay y m d * msPerDay mod msPerDay = 0"
    by (simp_all add: msPerDay_def)
  then show ?thesis
    unfolding toISOString_def Let_def
    by (simp only: civil_of_makeDay [OF assms] prod.case) (simp add: pad_zero)
qed

text \<open>
  A string of the form \<^verbatim>\<open>YYYY-MM-DD\<close> that names a date of the calendar is returned as it
  is, in every runtime.
\<close>

lemma normalizeDate_iso_fixed:
  assumes "rxTest isoDateRegex s" and "validYMD s"
  shows "normalizeDate rt s = Inr s"
proof -
  from assms(1) obtain Y M D where
    s: "s = Y @ ''-'' @ M @ ''-'' @ D" and len: "length Y = 4" "length M = 2" "length D = 2"
    and dig: "list_all isDigit Y" "list_all isDigit M" "list_all isDigit D"
    by (auto simp: rxTest_lang lang_isoDateRegex)
  from len have f: "field 0 4 s = numberOf Y" "field 5 2 s = numberOf M" "field 8 2 s = numberOf D"
    and l: "length s = 10"
    unfolding s field_def by simp_all
  from assms(2) have v: "1 \<le> numberOf M" "numberOf M \<le> 12" "1 \<le> numberOf D"
    "numberOf D \<le> daysInMonth (numberOf Y) (numberOf M)"
    by (simp_all add: validYMD_def f)
  from numberOf_bounds [OF dig(1)] len(1) have y: "0 \<le> numberOf Y" "numberOf Y \<le> 9999" by simp_all
  have p: "pad 4 (numberOf Y) = Y" "pad 2 (numberOf M) = M" "pad 2 (numberOf D) = D"
    using pad_numberOf [OF dig(1)] pad_numberOf [OF dig(2)] pad_numberOf [OF dig(3)] len
    by simp_all
  have "dateParse rt s = Some (makeDay (numberOf Y) (numberOf M) (numberOf D) * msPerDay)"
    using assms makeDay_clip [OF v y] by (simp add: dateParse_def writtenTime_def f l)
  moreover have "toISOString (makeDay (numberOf Y) (numberOf M) (numberOf D) * msPerDay)
      = s @ ''T00:00:00.000Z''"
    unfolding toISOString_midnight [OF v] using y by (simp add: yearString_def p s)
  moreover have "takeWhile notT (s @ ''T00:00:00.000Z'') = s"
  proof -
    have n: "notT CHR ''-''" "\<not> notT CHR ''T''" by (simp_all add: notT_def)
    have "\<forall>c \<in> set s. notT c"
      using dig n(1) unfolding s by (auto simp: list_all_iff intro: isDigit_notT)
    with n(2) show ?thesis by (simp add: takeWhile_append2)
  qed
  ultimately show ?thesis by (simp add: normalizeDate_def)
qed

lemma normalizeDate_iso_unparsed:
  "rxTest isoDateRegex s \<Longrightarrow> dateParse rt s = None \<Longrightarrow> normalizeDate rt s = Inr s"
  by (simp add: normalizeDate_def)

text \<open>
  Where the runtime parses a day that the month does not have, as engines do that accept a
  day up to 31 in every month and carry the excess into the next month, a string of the form
  \<^verbatim>\<open>YYYY-MM-DD\<close> passes the date validator and is not returned as it is.
\<close>

lemma normalizeDate_carries_day:
  "dateValidator \<lparr>localTZA = z, otherFormats = (\<lambda>s. Some (makeDay 2025 3 2 * msPerDay))\<rparr>
     ''2025-02-30''
   \<and> normalizeDate \<lparr>localTZA = z, otherFormats = (\<lambda>s. Some (makeDay 2025 3 2 * msPerDay))\<rparr>
       ''2025-02-30'' = Inr ''2025-03-02''"
  by code_simp

section \<open>Properties of the save of an event\<close>

lemma isSpace_lowerChar: "isSpace (lowerChar c) = isSpace c"
  by (auto simp: isSpace_def code_lowerChar)

lemma stripBoth_idem: "stripBoth P (stripBoth P s) = stripBoth P s"
  by (rule stripBoth_id) (rule stripBoth_ends)

lemma trim_toLowerCase: "trim (toLowerCase s) = toLowerCase (trim s)"
proof -
  have c: "isSpace \<circ> lowerChar = isSpace" by (rule ext) (simp add: isSpace_lowerChar)
  have d: "dropWhile isSpace (map lowerChar xs) = map lowerChar (dropWhile isSpace xs)" for xs
    by (simp add: dropWhile_map c)
  show ?thesis
    by (simp add: trim_def stripBoth_def toLowerCase_def d rev_map)
qed

lemma generateSlug_trim: "generateSlug (trim t) = generateSlug t"
proof -
  have "trim (toLowerCase (trim t)) = trim (toLowerCase t)"
    by (simp add: trim_toLowerCase [symmetric]) (simp add: trim_def stripBoth_idem)
  then show ?thesis by (simp add: generateSlug_def)
qed

lemma slugForm_toLowerCase: "slugForm s \<Longrightarrow> toLowerCase s = s"
  by (simp add: slugForm_def toLowerCase_def list_all_iff slugChar_lower map_idI)

lemma slugForm_trim: "slugForm s \<Longrightarrow> trim s = s"
proof (cases "s = []")
  case True
  then show ?thesis by (simp add: trim_def stripBoth_def)
next
  case False
  assume "slugForm s"
  then have "\<forall>c \<in> set s. \<not> isSpace c"
    by (auto simp: slugForm_def list_all_iff dest: slugChar_not_space)
  with False have "\<not> isSpace (hd s) \<and> \<not> isSpace (last s)" by simp
  then show ?thesis by (simp add: trim_def stripBoth_id)
qed

lemma slugSetter_generateSlug: "slugSetter (generateSlug t) = generateSlug t"
  by (simp add: slugSetter_def slugForm_trim slugForm_toLowerCase slugForm_generateSlug)

lemma failing_Nil: "failing p ok = [] \<longleftrightarrow> ok"
  by (simp add: failing_def)

lemma textPathOk_Some: "textPathOk v \<Longrightarrow> \<exists>s. v = Some s"
  by (cases v) (simp_all add: textPathOk_def requiredString_def)

lemma datePathOk_Some: "datePathOk rt v \<Longrightarrow> \<exists>s. v = Some s \<and> dateValidator rt s"
  by (cases v) (simp_all add: datePathOk_def requiredString_def)

lemma validated_paths:
  assumes "validateEvent rt d = []"
  shows "\<exists>t v x. title d = Some t \<and> date d = Some v \<and> dateValidator rt v \<and> time d = Some x"
proof -
  from assms have "textPathOk (title d)" "datePathOk rt (date d)" "textPathOk (time d)"
    by (simp_all add: validateEvent_def failing_Nil)
  then show ?thesis by (blast dest: textPathOk_Some datePathOk_Some)
qed

lemma normalizeDate_validated: "dateValidator rt v \<Longrightarrow> \<exists>w. normalizeDate rt v = Inr w"
  by (auto simp: dateValidator_def normalizeDate_def split: if_splits)

lemma slugStep_new:
  "isNew d \<Longrightarrow> title d = Some t \<Longrightarrow>
   slugStep d = Inr (d\<lparr>slug := Some (generateSlug t), modifiedPaths := ''slug'' # modifiedPaths d\<rparr>)"
  by (simp add: slugStep_def slugSetter_generateSlug)

lemma dateStep_keeps:
  "dateStep rt d = Inr d' \<Longrightarrow> slug d' = slug d \<and> isNew d' = isNew d \<and> docId d' = docId d \<and> time d' = time d \<and> modifiedPaths d' = modifiedPaths d"
  by (auto simp: dateStep_def split: if_splits sum.splits option.splits)

lemma timeStep_keeps:
  "timeStep d = Inr d' \<Longrightarrow> slug d' = slug d \<and> isNew d' = isNew d \<and> docId d' = docId d"
  by (auto simp: timeStep_def split: if_splits option.splits)

lemma dateStep_validated:
  "date d = Some v \<Longrightarrow> dateValidator rt v \<Longrightarrow> \<exists>d'. dateStep rt d = Inr d'"
  by (auto simp: dateStep_def dest: normalizeDate_validated)

lemma timeStep_present: "time d = Some x \<Longrightarrow> \<exists>d'. timeStep d = Inr d'"
  by (simp add: timeStep_def)

lemma eventPreSave_new:
  assumes "isNew d" and "validateEvent rt d = []"
  shows "\<exists>d' t. title d = Some t \<and> eventPreSave rt d = Inr d' \<and> slug d' = Some (generateSlug t)
           \<and> isNew d'"
proof -
  from assms(2) obtain t v x where
    f: "title d = Some t" "date d = Some v" "dateValidator rt v" "time d = Some x"
    using validated_paths by blast
  let ?d1 = "d\<lparr>slug := Some (generateSlug t), modifiedPaths := ''slug'' # modifiedPaths d\<rparr>"
  from assms(1) f(1) have s1: "slugStep d = Inr ?d1" by (rule slugStep_new)
  from f(2,3) obtain d2 where s2: "dateStep rt ?d1 = Inr d2"
    using dateStep_validated [of ?d1 v rt] by auto
  then have k2: "slug d2 = Some (generateSlug t)" "isNew d2 = isNew d" "time d2 = Some x"
    using dateStep_keeps [OF s2] f(4) by simp_all
  from k2(3) obtain d3 where s3: "timeStep d2 = Inr d3"
    using timeStep_present by blast
  then have "slug d3 = Some (generateSlug t)" "isNew d3"
    using timeStep_keeps [OF s3] k2 assms(1) by simp_all
  moreover have "eventPreSave rt d = Inr d3"
    by (simp add: eventPreSave_def s1 s2 s3)
  ultimately show ?thesis using f(1) by blast
qed

lemma eventPreSave_new_slug:
  assumes "isNew d" and "eventPreSave rt d = Inr d'"
  shows "\<exists>t. title d = Some t \<and> slug d' = Some (generateSlug t) \<and> isNew d'"
proof -
  from assms obtain d1 d2 where
    s: "slugStep d = Inr d1" "dateStep rt d1 = Inr d2" "timeStep d2 = Inr d'"
    by (auto simp: eventPreSave_def split: sum.splits)
  from s(1) assms(1) obtain t where t: "title d = Some t"
    and d1: "slug d1 = Some (generateSlug t)" "isNew d1"
    by (auto simp: slugStep_def slugSetter_generateSlug split: option.splits)
  from dateStep_keeps [OF s(2)] timeStep_keeps [OF s(3)] d1
  have "slug d' = Some (generateSlug t)" "isNew d'" by simp_all
  with t show ?thesis by blast
qed

lemma saveEvent_failure_keeps_store:
  "saveEvent rt d db = (Inl e, db') \<Longrightarrow> db' = db"
  by (auto simp: saveEvent_def Let_def split: if_splits sum.splits)

lemma saveEvent_new_stores_slug:
  assumes "isNew d" and "saveEvent rt d db = (Inr d1, db1)"
  shows "\<exists>t. title d = Some t \<and> list_ex (\<lambda>e. slug e = Some (generateSlug t)) (events db1)"
proof -
  from assms(2) obtain d' where p: "eventPreSave rt d = Inr d'"
    by (auto simp: saveEvent_def Let_def split: if_splits sum.splits)
  with assms(1) obtain t where t: "title d = Some t" "slug d' = Some (generateSlug t)" "isNew d'"
    using eventPreSave_new_slug by blast
  with assms(2) p have "insertEvent d' db = Inr db1"
    by (auto simp: saveEvent_def Let_def split: if_splits sum.splits)
  then have "events db1 = events db @ [stored d']"
    by (auto simp: insertEvent_def split: if_splits)
  with t have "list_ex (\<lambda>e. slug e = Some (generateSlug t)) (events db1)"
    by (simp add: stored_def)
  with t show ?thesis by blast
qed

lemma saveEvent_new_duplicate:
  assumes "isNew d" and "validateEvent rt d = []" and "title d = Some t"
    and "list_ex (\<lambda>e. slug e = Some (generateSlug t)) (events db)"
  shows "saveEvent rt d db = (Inl (DuplicateKey ''slug''), db)"
proof -
  from assms(1,2) obtain d' t' where
    p: "title d = Some t'" "eventPreSave rt d = Inr d'" "slug d' = Some (generateSlug t')" "isNew d'"
    using eventPreSave_new by blast
  with assms(3) have "slug d' = Some (generateSlug t)" by simp
  with assms(4) have "insertEvent d' db = Inl (DuplicateKey ''slug'')"
    by (simp add: insertEvent_def)
  with p assms(2) show ?thesis by (simp add: saveEvent_def)
qed

lemma saveEvent_invalid:
  "validateEvent rt d \<noteq> [] \<Longrightarrow> saveEvent rt d db = (Inl (ValidationError (validateEvent rt d)), db)"
  by (simp add: saveEvent_def)

text \<open>The validators judge the date as the caller left it: a date they reject ends the save.\<close>

lemma saveEvent_raw_date_rejected:
  assumes "date d = Some v" and "\<not> dateValidator rt v"
  shows "saveEvent rt d db = (Inl (ValidationError (validateEvent rt d)), db)"
    and "''date'' \<in> set (validateEvent rt d)"
proof -
  from assms show "''date'' \<in> set (validateEvent rt d)"
    by (simp add: validateEvent_def failing_def datePathOk_def)
  then have "validateEvent rt d \<noteq> []" by auto
  then show "saveEvent rt d db = (Inl (ValidationError (validateEvent rt d)), db)"
    by (rule saveEvent_invalid)
qed

text \<open>
  On a document that has passed validation the hook never ends in an error: its
  \<^verbatim>\<open>next(error)\<close> for a date that cannot be normalized is not reached in a save.
\<close>

lemma eventPreSave_validated:
  assumes "validateEvent rt d = []"
  shows "\<exists>d'. eventPreSave rt d = Inr d'"
proof -
  from assms obtain t v x where
    f: "title d = Some t" "date d = Some v" "dateValidator rt v" "time d = Some x"
    using validated_paths by blast
  have "\<exists>d1. slugStep d = Inr d1 \<and> date d1 = date d \<and> time d1 = time d"
    using f(1) by (cases "isModified d ''title'' \<or> isNew d") (simp_all add: slugStep_def)
  then obtain d1 where s1: "slugStep d = Inr d1" and k1: "date d1 = date d" "time d1 = time d"
    by blast
  from f(2,3) k1(1) obtain d2 where s2: "dateStep rt d1 = Inr d2"
    using dateStep_validated [of d1 v rt] by auto
  from dateStep_keeps [OF s2] k1(2) f(4) have "time d2 = Some x" by simp
  then obtain d3 where s3: "timeStep d2 = Inr d3" using timeStep_present by blast
  show ?thesis by (simp add: eventPreSave_def s1 s2 s3)
qed

section \<open>Properties of the save of a booking\<close>

lemma saveBooking_failure_keeps_store: "saveBooking b db = (Inl e, db') \<Longrightarrow> db' = db"
  by (auto simp: saveBooking_def Let_def split: if_splits option.splits)

lemma castObjectId_Some: "castObjectId e = Some c \<Longrightarrow> c = toLowerCase e"
  by (simp add: castObjectId_def split: if_splits)

text \<open>A booking that passes validation carries the identifier that its \<^verbatim>\<open>eventId\<close> was cast to.\<close>

lemma validated_eventId:
  assumes "validateBooking (newBooking i (Some e) m) = []"
  shows "eventId (newBooking i (Some e) m) = Some (toLowerCase e)"
proof -
  from assms have "eventId (newBooking i (Some e) m) \<noteq> None"
    by (simp add: validateBooking_def failing_def split: if_splits)
  then obtain c where c: "castObjectId e = Some c" by (auto simp: newBooking_def)
  then have "c = toLowerCase e" by (rule castObjectId_Some)
  with c show ?thesis by (simp add: newBooking_def)
qed

text \<open>
  An \<^verbatim>\<open>eventId\<close> that cannot be cast fails validation, and one written in upper case is
  cast to lower case.
\<close>

lemma uncastable_eventId_rejected:
  "createBooking ''b1'' (Some ''e1'') (Some ''user@example.com'') emptyDatabase
     = (Inl (ValidationError [''eventId'']), emptyDatabase)
   \<and> eventId (newBooking ''b1'' (Some ''64F0C0FFEE0123456789ABCD'') (Some ''user@example.com''))
     = Some ''64f0c0ffee0123456789abcd''"
  by code_simp

section \<open>Properties of the connection manager\<close>

lemma validateMongoUri_cache:
  "validateMongoUri (w\<lparr>globalMongoose := g\<rparr>) = validateMongoUri w"
  by (simp add: validateMongoUri_def)

lemma connectDB_starts:
  assumes "conn (getMongooseCache w) = None" and "promise (getMongooseCache w) = None"
    and "validateMongoUri w = Inr u"
  shows "connectDB a w =
           w\<lparr>globalMongoose := Some \<lparr>conn = None, promise = Some (connectCalls w)\<rparr>,
             connectCalls := Suc (connectCalls w),
             promiseState := (promiseState w)(connectCalls w := Pending),
             callers := (callers w)(a := AwaitsOwn (connectCalls w))\<rparr>"
proof -
  from assms(1,2) have "getMongooseCache w = \<lparr>conn = None, promise = None\<rparr>"
    by (cases "getMongooseCache w") simp
  with assms(3) show ?thesis by (simp add: connectDB_def Let_def validateMongoUri_cache)
qed

lemma connectDB_joins:
  assumes "conn (getMongooseCache w) = None" and "promise (getMongooseCache w) = Some p"
    and "promiseState w p = Pending"
  shows "connectDB a w =
           w\<lparr>globalMongoose := Some (getMongooseCache w),
             callers := (callers w)(a := AwaitsShared p)\<rparr>"
  using assms by (simp add: connectDB_def Let_def)

text \<open>A caller left waiting by its call waits for the promise in the cache, and no handle is cached.\<close>

lemma connectDB_waiting:
  assumes "callers (connectDB a w) a = AwaitsOwn p \<or> callers (connectDB a w) a = AwaitsShared p"
  shows "conn (getMongooseCache (connectDB a w)) = None
         \<and> promise (getMongooseCache (connectDB a w)) = Some p
         \<and> connectCalls (connectDB a w)
             = connectCalls w + (if promise (getMongooseCache w) = None then 1 else 0)"
proof (cases "conn (getMongooseCache w)")
  case (Some h)
  with assms show ?thesis by (simp add: connectDB_def Let_def)
next
  case None
  note c = this
  show ?thesis
  proof (cases "promise (getMongooseCache w)")
    case (Some q)
    with c assms show ?thesis
      by (cases "promiseState w q") (simp_all add: connectDB_def Let_def getMongooseCache_def)
  next
    case None
    note pn = this
    show ?thesis
    proof (cases "validateMongoUri w")
      case (Inl e)
      with c pn assms show ?thesis by (simp add: connectDB_def Let_def validateMongoUri_cache)
    next
      case (Inr u)
      from assms pn show ?thesis
        unfolding connectDB_starts [OF c pn Inr]
        by (simp add: getMongooseCache_def)
    qed
  qed
qed

lemma connectDB_own:
  assumes "callers (connectDB a w) a = AwaitsOwn p"
  shows "promiseState (connectDB a w) p = Pending"
proof (cases "conn (getMongooseCache w)")
  case (Some h)
  with assms show ?thesis by (simp add: connectDB_def Let_def)
next
  case None
  note c = this
  show ?thesis
  proof (cases "promise (getMongooseCache w)")
    case (Some q)
    with c assms show ?thesis
      by (cases "promiseState w q") (simp_all add: connectDB_def Let_def)
  next
    case None
    note pn = this
    show ?thesis
    proof (cases "validateMongoUri w")
      case (Inl e)
      with c pn assms show ?thesis by (simp add: connectDB_def Let_def validateMongoUri_cache)
    next
      case (Inr u)
      from assms show ?thesis
        unfolding connectDB_starts [OF c pn Inr] by simp
    qed
  qed
qed

text \<open>With the empty connection string a call throws the configuration error and starts no attempt.\<close>

lemma connectDB_empty_uri:
  "callers (connectDB 1 (freshProcess (Some []))) 1 = Threw uriMissing
   \<and> connectCalls (connectDB 1 (freshProcess (Some []))) = 0"
  by (simp add: freshProcess_def connectDB_def getMongooseCache_def validateMongoUri_def Let_def)

section \<open>Date normalization\<close>

text \<open>
  Claim C1 says that \<open>normalizeDate\<close> returns the calendar date of its argument, as
  \<^verbatim>\<open>YYYY-MM-DD\<close>. The code returns the date of the parsed instant in UTC. At 23:30 on
  21 October 2025, five hours west of UTC, that is 22 October, in every runtime; at midnight
  of 21 October 2025 in local time, in a runtime two hours east of UTC, it is 20 October;
  and at the last evening of the year 9999, five hours west of UTC, it is a date of the
  year 10000, which \<^verbatim>\<open>toISOString\<close> writes with a sign and six digits, no match of
  \<^verbatim>\<open>YYYY-MM-DD\<close>.
\<close>

theorem normalizeDate_takes_utc_date:
  "normalizeDate rt ''2025-10-21T23:30:00-05:00'' = Inr ''2025-10-22''
   \<and> normalizeDate \<lparr>localTZA = (\<lambda>t. 7200000), otherFormats = f\<rparr> ''2025-10-21T00:00:00''
       = Inr ''2025-10-20''
   \<and> normalizeDate rt ''9999-12-31T23:30:00-05:00'' = Inr ''+010000-01-01''
   \<and> \<not> rxTest isoDateRegex ''+010000-01-01''"
  by code_simp

section \<open>Validation and normalization on a save\<close>

text \<open>
  Claim C2 says that on a save in which the date was modified the date is rewritten by
  \<open>normalizeDate\<close> before the validators examine it. The code at a new event whose date is
  \<^verbatim>\<open>2025-10-21T10:00:00Z\<close>, in every runtime: \<open>normalizeDate\<close> would rewrite the date
  to \<^verbatim>\<open>2025-10-21\<close>, which the date validator accepts, but the validators run first, on
  the value as it was given, and the save fails with a validation error on the path
  \<^verbatim>\<open>date\<close>; the store is as it was.
\<close>

theorem date_validated_before_normalized:
  "normalizeDate rt ''2025-10-21T10:00:00Z'' = Inr ''2025-10-21''
   \<and> dateValidator rt ''2025-10-21''
   \<and> isModified (newEvent ''e1'' (sampleFields ''Next.js Conf 2025'' ''2025-10-21T10:00:00Z'' ''hybrid''))
        ''date''
   \<and> createEvent rt ''e1'' (sampleFields ''Next.js Conf 2025'' ''2025-10-21T10:00:00Z'' ''hybrid'')
        emptyDatabase
      = (Inl (ValidationError [''date'']), emptyDatabase)"
  by code_simp

section \<open>The shape of a slug\<close>

text \<open>
  Claim C3, as the code has it. For every title \<open>T\<close>, \<open>generateSlug T\<close> is lowercase
  (\<^verbatim>\<open>toLowerCase\<close> leaves it as it is), contains no character outside
  \<^verbatim>\<open>[a-z0-9_-]\<close>, has no leading and no trailing hyphen, and contains no two consecutive
  hyphens. The underscore belongs to the class \<^verbatim>\<open>\w\<close> that the first replacement
  keeps, so it can occur in a slug.
\<close>

theorem generateSlug_shape:
  "toLowerCase (generateSlug T) = generateSlug T
   \<and> list_all slugChar (generateSlug T)
   \<and> \<not> (\<exists>v. generateSlug T = CHR ''-'' # v)
   \<and> \<not> (\<exists>u. generateSlug T = u @ ''-'')
   \<and> \<not> (\<exists>u v. generateSlug T = u @ ''--'' @ v)"
proof -
  have f: "slugForm (generateSlug T)" by (rule slugForm_generateSlug)
  then have all: "list_all slugChar (generateSlug T)" by (simp add: slugForm_def)
  then have low: "toLowerCase (generateSlug T) = generateSlug T"
    by (simp add: toLowerCase_def list_all_iff slugChar_lower map_idI)
  from f have ends: "generateSlug T = []
      \<or> (\<not> isHyphen (hd (generateSlug T)) \<and> \<not> isHyphen (last (generateSlug T)))"
    by (simp add: slugForm_def)
  then have first: "\<not> (\<exists>v. generateSlug T = CHR ''-'' # v)"
    by (auto simp: isHyphen_def)
  from ends have lst: "\<not> (\<exists>u. generateSlug T = u @ ''-'')"
    by (auto simp: isHyphen_def)
  from f have "noDoubleHyphen (generateSlug T)" by (simp add: slugForm_def)
  then have "\<not> (\<exists>u v. generateSlug T = u @ ''--'' @ v)" by (rule noDouble_no_pair)
  with low all first lst show ?thesis by simp
qed

text \<open>
  The claim as it is stated excludes every character outside \<^verbatim>\<open>[a-z0-9-]\<close>; the title
  \<^verbatim>\<open>a_b\<close> is its own slug and contains an underscore.
\<close>

theorem generateSlug_keeps_underscore:
  "generateSlug ''a_b'' = ''a_b'' \<and> \<not> list_all strictSlugChar (generateSlug ''a_b'')"
  by code_simp

section \<open>Slug generation is idempotent\<close>

text \<open>
  Claim C4. For every title \<open>T\<close>, generating the slug of a slug changes nothing:
  \<open>generateSlug (generateSlug T) = generateSlug T\<close>.
\<close>

theorem generateSlug_idempotent: "generateSlug (generateSlug T) = generateSlug T"
  by (rule generateSlug_fixed) (rule slugForm_generateSlug)

section \<open>Two events with one slug\<close>

text \<open>
  Claim C5, as the code has it. When a create of an event has succeeded, a second create
  whose title has the same slug and whose document passes validation fails with the
  duplicate-key error of the unique index on \<^verbatim>\<open>slug\<close>, and the store is unchanged.
\<close>

theorem second_create_duplicate_slug:
  assumes "createEvent rt i1 f1 db = (Inr d1, db1)"
    and "map_option generateSlug (title f1) = map_option generateSlug (title f2)"
    and "validateEvent rt (newEvent i2 f2) = []"
  shows "createEvent rt i2 f2 db1 = (Inl (DuplicateKey ''slug''), db1)"
proof -
  have n1: "isNew (newEvent i1 f1)" and n2: "isNew (newEvent i2 f2)"
    by (simp_all add: newEvent_def)
  from assms(1) have "saveEvent rt (newEvent i1 f1) db = (Inr d1, db1)"
    by (simp add: createEvent_def)
  from saveEvent_new_stores_slug [OF n1 this] obtain s where
    s: "title (newEvent i1 f1) = Some s"
    and st: "list_ex (\<lambda>e. slug e = Some (generateSlug s)) (events db1)"
    by blast
  from s obtain t1 where t1: "title f1 = Some t1" "s = trim t1"
    by (auto simp: newEvent_def)
  with assms(2) obtain t2 where t2: "title f2 = Some t2" "generateSlug t1 = generateSlug t2"
    by (cases "title f2") auto
  then have "title (newEvent i2 f2) = Some (trim t2)" by (simp add: newEvent_def)
  moreover from st t1 t2 have "list_ex (\<lambda>e. slug e = Some (generateSlug (trim t2))) (events db1)"
    by (simp add: generateSlug_trim)
  ultimately show ?thesis
    using saveEvent_new_duplicate [OF n2 assms(3)] by (simp add: createEvent_def)
qed

theorem second_create_duplicate_slug_witness:
  "createEvent utcRuntime ''e1'' (sampleFields ''Next.js Conf 2025'' ''2025-10-21'' ''hybrid'')
       emptyDatabase
     = (Inr (projr (fst (createEvent utcRuntime ''e1''
               (sampleFields ''Next.js Conf 2025'' ''2025-10-21'' ''hybrid'') emptyDatabase))),
        snd (createEvent utcRuntime ''e1''
               (sampleFields ''Next.js Conf 2025'' ''2025-10-21'' ''hybrid'') emptyDatabase))
   \<and> generateSlug ''Next.js Conf 2025'' = generateSlug ''  nextjs conf -- 2025!''
   \<and> validateEvent utcRuntime
         (newEvent ''e2'' (sampleFields ''  nextjs conf -- 2025!'' ''2025-11-02'' ''online'')) = []
   \<and> createEvent utcRuntime ''e2'' (sampleFields ''  nextjs conf -- 2025!'' ''2025-11-02'' ''online'')
        (snd (createEvent utcRuntime ''e1''
               (sampleFields ''Next.js Conf 2025'' ''2025-10-21'' ''hybrid'') emptyDatabase))
      = (Inl (DuplicateKey ''slug''),
         snd (createEvent utcRuntime ''e1''
               (sampleFields ''Next.js Conf 2025'' ''2025-10-21'' ''hybrid'') emptyDatabase))"
proof -
  let ?f1 = "sampleFields ''Next.js Conf 2025'' ''2025-10-21'' ''hybrid''"
  let ?f2 = "sampleFields ''  nextjs conf -- 2025!'' ''2025-11-02'' ''online''"
  let ?r = "createEvent utcRuntime ''e1'' ?f1 emptyDatabase"
  have a: "?r = (Inr (projr (fst ?r)), snd ?r)" by code_simp
  have g: "generateSlug ''Next.js Conf 2025'' = generateSlug ''  nextjs conf -- 2025!''"
    by code_simp
  then have b: "map_option generateSlug (title ?f1) = map_option generateSlug (title ?f2)"
    by (simp add: sampleFields_def)
  have c: "validateEvent utcRuntime (newEvent ''e2'' ?f2) = []" by code_simp
  from second_create_duplicate_slug [OF a b c] a g c show ?thesis by simp
qed

text \<open>
  The claim as it is stated has every second create fail with the uniqueness violation. A
  second create with the same slug and the mode \<^verbatim>\<open>in-person\<close> fails validation instead,
  before the store is asked.
\<close>

theorem second_create_invalid_mode:
  "map_sum id docId
     (fst (createEvent utcRuntime ''e1'' (sampleFields ''Next.js Conf 2025'' ''2025-10-21'' ''hybrid'')
            emptyDatabase)) = Inr ''e1''
   \<and> generateSlug ''Next.js Conf 2025'' = generateSlug ''nextjs conf 2025''
   \<and> fst (createEvent utcRuntime ''e2'' (sampleFields ''nextjs conf 2025'' ''2025-10-21'' ''in-person'')
        (snd (createEvent utcRuntime ''e1''
               (sampleFields ''Next.js Conf 2025'' ''2025-10-21'' ''hybrid'') emptyDatabase)))
      = Inl (ValidationError [''mode''])"
  by code_simp

section \<open>A booking for an event that is not stored\<close>

text \<open>
  Claim C6, as the code has it. A create of a booking that passes validation, whose
  \<^verbatim>\<open>eventId\<close> is the identifier of no stored event, and whose lookup meets no fault of the
  store, fails with the error \<^verbatim>\<open>Event with ID <id> does not exist\<close> of the hook, which
  names the identifier (as the cast left it, in lower case), and no booking is written.
\<close>

theorem booking_of_missing_event_rejected:
  assumes "validateBooking (newBooking i (Some e) m) = []"
    and "lookupFault db = None"
    and "\<not> list_ex (\<lambda>x. docId x = toLowerCase e) (events db)"
  shows "createBooking i (Some e) m db = (Inl (HookError (notFoundMessage (toLowerCase e))), db)"
proof -
  from assms(3) have "find (\<lambda>x. docId x = toLowerCase e) (events db) = None"
    by (simp add: find_None_iff list_ex_iff)
  with assms(2) validated_eventId [OF assms(1)]
  have "bookingPreSave db (newBooking i (Some e) m) = Some (notFoundMessage (toLowerCase e))"
    by (simp add: bookingPreSave_def findById_def)
  with assms(1) show ?thesis
    by (simp add: createBooking_def saveBooking_def)
qed

theorem booking_of_missing_event_rejected_witness:
  "validateBooking (newBooking ''b1'' (Some ''64f0c0ffee0123456789abcd'') (Some ''  USER@Example.COM '')) = []
   \<and> lookupFault emptyDatabase = None
   \<and> \<not> list_ex (\<lambda>x. docId x = ''64f0c0ffee0123456789abcd'') (events emptyDatabase)
   \<and> createBooking ''b1'' (Some ''64f0c0ffee0123456789abcd'') (Some ''  USER@Example.COM '') emptyDatabase
      = (Inl (HookError ''Event with ID 64f0c0ffee0123456789abcd does not exist''), emptyDatabase)"
proof -
  have a: "validateBooking (newBooking ''b1'' (Some ''64f0c0ffee0123456789abcd'') (Some ''  USER@Example.COM '')) = []"
    by code_simp
  have b: "lookupFault emptyDatabase = None" by (simp add: emptyDatabase_def)
  have l: "toLowerCase ''64f0c0ffee0123456789abcd'' = ''64f0c0ffee0123456789abcd''"
    by code_simp
  have c: "\<not> list_ex (\<lambda>x. docId x = toLowerCase ''64f0c0ffee0123456789abcd'')
             (events emptyDatabase)"
    by (simp add: emptyDatabase_def)
  from booking_of_missing_event_rejected [OF a b c] a b c show ?thesis
    by (simp add: notFoundMessage_def l)
qed

text \<open>
  The claim as it is stated has every such create fail with the reference error. The
  validators run before the hook: with an email that is no email the create fails with a
  validation error, and the event is never looked up.
\<close>

theorem booking_invalid_email_rejected_first:
  "events emptyDatabase = []
   \<and> createBooking ''b1'' (Some ''64f0c0ffee0123456789abcd'') (Some ''not-an-email'') emptyDatabase
      = (Inl (ValidationError [''email'']), emptyDatabase)"
  by code_simp

section \<open>The email of a booking\<close>

text \<open>
  Claim C7, as the code has it. For every booking, the path \<^verbatim>\<open>email\<close> passes validation
  exactly when its value, as the setters left it, has the form
  \<^verbatim>\<open>local@name.rest\<close>, where \<^verbatim>\<open>local\<close>, \<^verbatim>\<open>name\<close> and \<^verbatim>\<open>rest\<close> are not empty
  and contain neither whitespace nor \<^verbatim>\<open>@\<close>: the domain part must contain a dot with a
  character on each side.
\<close>

theorem email_path_valid_iff:
  "''email'' \<notin> set (validateBooking b) \<longleftrightarrow>
     (\<exists>l y z. email b = Some (l @ ''@'' @ y @ ''.'' @ z) \<and> l \<noteq> [] \<and> y \<noteq> [] \<and> z \<noteq> []
        \<and> list_all notSpaceAt (l @ y @ z))"
proof (cases "email b")
  case None
  then show ?thesis
    by (simp add: validateBooking_def failing_def emailPathOk_def requiredString_def)
next
  case (Some v)
  then show ?thesis
    using emailPathOk_iff [of v] by (simp add: validateBooking_def failing_def)
qed

theorem email_path_valid_iff_witness:
  "''email'' \<notin> set (validateBooking (newBooking ''b1'' (Some ''64f0c0ffee0123456789abcd'') (Some ''  USER@Example.COM '')))"
proof -
  let ?b = "newBooking ''b1'' (Some ''64f0c0ffee0123456789abcd'') (Some ''  USER@Example.COM '')"
  have e: "email ?b = Some (''user'' @ ''@'' @ ''example'' @ ''.'' @ ''com'')"
    by code_simp
  have n: "list_all notSpaceAt (''user'' @ ''example'' @ ''com'')"
    by code_simp
  have "''user'' \<noteq> [] \<and> ''example'' \<noteq> [] \<and> ''com'' \<noteq> []" by simp
  with e n show ?thesis
    using email_path_valid_iff [of ?b] by blast
qed

text \<open>
  The claim as it is stated asks for a local part, \<^verbatim>\<open>@\<close> and a domain part without
  whitespace only. \<^verbatim>\<open>a@b\<close> has that form, is left as it is by the setters, and fails
  validation.
\<close>

theorem email_no_dot_rejected:
  "specEmailPattern ''a@b''
   \<and> email (newBooking ''b1'' (Some ''64f0c0ffee0123456789abcd'') (Some ''a@b'')) = Some ''a@b''
   \<and> ''email'' \<in> set (validateBooking (newBooking ''b1'' (Some ''64f0c0ffee0123456789abcd'') (Some ''a@b'')))"
  by code_simp

section \<open>The cache after a successful connect\<close>

text \<open>
  Claim C8, as the code has it. When a call of \<^verbatim>\<open>connectDB\<close> has started a connection
  attempt (the caller waits for its own promise \<open>p\<close>) and the attempt succeeds with the
  handle \<open>h\<close>, then the cache holds \<open>h\<close>, the caller has \<open>h\<close>, and \<^verbatim>\<open>cache.promise\<close>
  still holds the promise of that attempt: success does not clear it.
\<close>

theorem connect_success_keeps_promise:
  assumes "callers (connectDB a w) a = AwaitsOwn p"
  shows "getMongooseCache (connectSucceeds p h (connectDB a w)) = \<lparr>conn = Some h, promise = Some p\<rparr>
         \<and> callers (connectSucceeds p h (connectDB a w)) a = Returned h"
proof -
  let ?w1 = "connectDB a w"
  from assms have "callers ?w1 a = AwaitsOwn p \<or> callers ?w1 a = AwaitsShared p" by simp
  from connectDB_waiting [OF this] have
    c: "conn (getMongooseCache ?w1) = None" and q: "promise (getMongooseCache ?w1) = Some p"
    by simp_all
  then have g: "getMongooseCache ?w1 = \<lparr>conn = None, promise = Some p\<rparr>"
    by (cases "getMongooseCache ?w1") simp
  from connectDB_own [OF assms] have "promiseState ?w1 p = Pending" .
  with assms g show ?thesis
    by (simp add: connectSucceeds_def resumeFulfilled_def) (simp add: getMongooseCache_def)
qed

theorem connect_success_keeps_promise_witness:
  "callers (connectDB 1 (freshProcess (Some ''mongodb://localhost/dev''))) 1 = AwaitsOwn 0
   \<and> getMongooseCache (connectSucceeds 0 7 (connectDB 1 (freshProcess (Some ''mongodb://localhost/dev''))))
      = \<lparr>conn = Some 7, promise = Some 0\<rparr>
   \<and> callers (connectSucceeds 0 7 (connectDB 1 (freshProcess (Some ''mongodb://localhost/dev'')))) 1
      = Returned 7"
proof -
  let ?w = "freshProcess (Some ''mongodb://localhost/dev'')"
  have a: "callers (connectDB 1 ?w) 1 = AwaitsOwn 0"
    by (simp add: freshProcess_def connectDB_def getMongooseCache_def validateMongoUri_def Let_def)
  from connect_success_keeps_promise [OF a, of 7] a show ?thesis by simp
qed

text \<open>
  The claim as it is stated has the pending marker empty after a successful connect. In a
  fresh process, after one call and the success of its attempt, \<^verbatim>\<open>cache.promise\<close> is not
  empty.
\<close>

theorem pending_marker_not_cleared:
  "conn (getMongooseCache (connectSucceeds 0 7 (connectDB 1 (freshProcess (Some ''mongodb://localhost/dev'')))))
     = Some 7
   \<and> callers (connectSucceeds 0 7 (connectDB 1 (freshProcess (Some ''mongodb://localhost/dev'')))) 1
     = Returned 7
   \<and> promise (getMongooseCache (connectSucceeds 0 7 (connectDB 1 (freshProcess (Some ''mongodb://localhost/dev'')))))
     \<noteq> None"
  by (simp add: freshProcess_def connectDB_def connectSucceeds_def getMongooseCache_def
      validateMongoUri_def resumeFulfilled_def Let_def)

section \<open>Two callers, one connection attempt\<close>

text \<open>
  Claim C9, as the code has it. When the call of \<^verbatim>\<open>connectDB\<close> by the caller \<open>a\<close>
  leaves \<open>a\<close> waiting for a promise \<open>p\<close> whose attempt is in flight, and another caller
  \<open>b\<close> calls before that attempt is settled, then the call of \<open>b\<close> makes no call of
  \<^verbatim>\<open>mongoose.connect\<close> (the two calls together have made exactly one if the cache held no
  promise before, and none otherwise: the attempt behind \<open>p\<close> is the only one) and \<open>b\<close>
  waits for the same promise. If the attempt succeeds with the handle \<open>h\<close>, both callers
  have \<open>h\<close>. If it fails with the message \<open>e\<close>, neither caller has a handle: \<open>b\<close> has
  the rejection as it is, and \<open>a\<close> has the wrapped error if it started the attempt and the
  rejection as it is otherwise. Neither outcome brings a further attempt.
\<close>

theorem concurrent_connects_share_attempt:
  assumes "a \<noteq> b"
    and "callers (connectDB a w) a = AwaitsOwn p \<or> callers (connectDB a w) a = AwaitsShared p"
    and "promiseState (connectDB a w) p = Pending"
  shows "connectCalls (connectDB b (connectDB a w))
           = connectCalls w + (if promise (getMongooseCache w) = None then 1 else 0)
         \<and> callers (connectDB b (connectDB a w)) a = callers (connectDB a w) a
         \<and> callers (connectDB b (connectDB a w)) b = AwaitsShared p
         \<and> connectCalls (connectSucceeds p h (connectDB b (connectDB a w)))
             = connectCalls (connectDB b (connectDB a w))
         \<and> callers (connectSucceeds p h (connectDB b (connectDB a w))) a = Returned h
         \<and> callers (connectSucceeds p h (connectDB b (connectDB a w))) b = Returned h
         \<and> connectCalls (connectFails p e (connectDB b (connectDB a w)))
             = connectCalls (connectDB b (connectDB a w))
         \<and> callers (connectFails p e (connectDB b (connectDB a w))) a
             = (if callers (connectDB a w) a = AwaitsOwn p
                then Threw (''Failed to connect to MongoDB: '' @ e) else Threw e)
         \<and> callers (connectFails p e (connectDB b (connectDB a w))) b = Threw e"
proof -
  let ?w1 = "connectDB a w"
  from connectDB_waiting [OF assms(2)] have
    c: "conn (getMongooseCache ?w1) = None" and q: "promise (getMongooseCache ?w1) = Some p"
    and n: "connectCalls ?w1 = connectCalls w + (if promise (getMongooseCache w) = None then 1 else 0)"
    by simp_all
  have w2: "connectDB b ?w1
      = ?w1\<lparr>globalMongoose := Some (getMongooseCache ?w1),
            callers := (callers ?w1)(b := AwaitsShared p)\<rparr>"
    by (rule connectDB_joins [OF c q assms(3)])
  from assms(1,2,3) n show ?thesis
    unfolding w2
    by (auto simp: connectSucceeds_def resumeFulfilled_def connectFails_def resumeRejected_def)
qed

theorem concurrent_connects_share_attempt_witness:
  "callers (connectDB 1 (freshProcess (Some ''mongodb://localhost/dev''))) 1 = AwaitsOwn 0
   \<and> promiseState (connectDB 1 (freshProcess (Some ''mongodb://localhost/dev''))) 0 = Pending
   \<and> connectCalls (connectDB 2 (connectDB 1 (freshProcess (Some ''mongodb://localhost/dev'')))) = 1
   \<and> callers (connectDB 2 (connectDB 1 (freshProcess (Some ''mongodb://localhost/dev'')))) 2
       = AwaitsShared 0
   \<and> callers (connectSucceeds 0 7 (connectDB 2 (connectDB 1 (freshProcess (Some ''mongodb://localhost/dev''))))) 1 = Returned 7
   \<and> callers (connectSucceeds 0 7 (connectDB 2 (connectDB 1 (freshProcess (Some ''mongodb://localhost/dev''))))) 2 = Returned 7"
proof -
  let ?w = "freshProcess (Some ''mongodb://localhost/dev'')"
  have e: "(1::nat) \<noteq> 2" by simp
  have a: "callers (connectDB 1 ?w) 1 = AwaitsOwn 0 \<or> callers (connectDB 1 ?w) 1 = AwaitsShared 0"
    by (simp add: freshProcess_def connectDB_def getMongooseCache_def validateMongoUri_def Let_def)
  have a': "callers (connectDB 1 ?w) 1 = AwaitsOwn 0"
    by (simp add: freshProcess_def connectDB_def getMongooseCache_def validateMongoUri_def Let_def)
  have b: "promiseState (connectDB 1 ?w) 0 = Pending"
    by (simp add: freshProcess_def connectDB_def getMongooseCache_def validateMongoUri_def Let_def)
  have d: "connectCalls ?w = 0" "promise (getMongooseCache ?w) = None"
    by (simp_all add: freshProcess_def getMongooseCache_def)
  from concurrent_connects_share_attempt [OF e a b, of 7] a' b show ?thesis
    by (simp add: d)
qed

text \<open>
  The claim as it is stated has both callers receive the same handle, whatever becomes of
  the attempt. In a fresh process two callers call one after the other and the one attempt
  fails: the first caller has the wrapped error, the second the rejection as it is, and no
  handle is cached.
\<close>

theorem failed_attempt_gives_no_handle:
  "callers (connectDB 1 (freshProcess (Some ''mongodb://localhost/dev''))) 1 = AwaitsOwn 0
   \<and> connectCalls (connectDB 2 (connectDB 1 (freshProcess (Some ''mongodb://localhost/dev'')))) = 1
   \<and> callers (connectFails 0 ''connect ECONNREFUSED''
        (connectDB 2 (connectDB 1 (freshProcess (Some ''mongodb://localhost/dev''))))) 1
       = Threw ''Failed to connect to MongoDB: connect ECONNREFUSED''
   \<and> callers (connectFails 0 ''connect ECONNREFUSED''
        (connectDB 2 (connectDB 1 (freshProcess (Some ''mongodb://localhost/dev''))))) 2
       = Threw ''connect ECONNREFUSED''
   \<and> conn (getMongooseCache (connectFails 0 ''connect ECONNREFUSED''
        (connectDB 2 (connectDB 1 (freshProcess (Some ''mongodb://localhost/dev''))))))
       = None"
  by (simp add: freshProcess_def connectDB_def connectFails_def getMongooseCache_def
      validateMongoUri_def resumeRejected_def Let_def)

section \<open>An event with the empty slug\<close>

text \<open>
  Claim C10. The title \<^verbatim>\<open>!!!\<close> is not empty and passes the validator of the title, its
  slug is the empty string, and an event with that title is saved, in every runtime, with
  the empty string as its slug: the schema has no validator on \<^verbatim>\<open>slug\<close>.
\<close>

theorem empty_slug_saved:
  "generateSlug ''!!!'' = ''''
   \<and> textPathOk (title (newEvent ''e1'' (sampleFields ''!!!'' ''2025-10-21'' ''hybrid'')))
   \<and> map_sum id slug
        (fst (createEvent rt ''e1'' (sampleFields ''!!!'' ''2025-10-21'' ''hybrid'') emptyDatabase))
      = Inr (Some '''')
   \<and> map slug
        (events (snd (createEvent rt ''e1'' (sampleFields ''!!!'' ''2025-10-21'' ''hybrid'')
           emptyDatabase)))
      = [Some '''']"
  by code_simp

end
